theory Spec2Isabelle
  imports
    Complex_Main
    "HOL-Library.AList"
    "HOL-Library.Char_ord"
    "HOL-Library.List_Lexorder"
    "HOL-Library.Log_Nat"
begin

section \<open>The Python runtime the engine relies on\<close>

text \<open>
  The engine of \<^verbatim>\<open>src/pipeline/engine.py\<close> calls three things of the Python runtime
  that are not code of the repository: the built-in \<^verbatim>\<open>hash\<close> of a string, the
  generator \<^verbatim>\<open>random.Random\<close>, and binary floating point. The first two are
  parameters of the model: \<open>hash_str\<close> is the string hash of the running interpreter
  (CPython salts it per process unless \<^verbatim>\<open>PYTHONHASHSEED\<close> is set), and
  \<open>mt_random s k\<close> is the \<open>k\<close>-th value that \<^verbatim>\<open>random.Random(s).random()\<close>
  returns (a double in the half-open interval from 0 to 1).
\<close>

record py_runtime =
  hash_str :: "string \<Rightarrow> int"
  mt_random :: "int \<Rightarrow> nat \<Rightarrow> real"

subsection \<open>Binary64 arithmetic\<close>

text \<open>
  A Python float is an IEEE 754 binary64 number; every operation returns the exact
  result rounded to the nearest double, ties to even. Doubles are modelled as the reals
  they denote. \<open>fl\<close> is that rounding for the normal range (53 significant bits); the
  model leaves out subnormals, infinities and the \<^verbatim>\<open>OverflowError\<close> that converting
  an integer beyond the double range raises, so it speaks about seeds of magnitude below
  \<open>2 ^ 1023\<close>.
\<close>

definition round_half_even :: "real \<Rightarrow> int" where
  "round_half_even x =
     (let f = \<lfloor>x\<rfloor>; d = x - of_int f
      in if d < 1 / 2 then f
         else if 1 / 2 < d then f + 1
         else if even f then f else f + 1)"

definition float_exponent :: "real \<Rightarrow> int" where
  \<comment> \<open>the \<open>e\<close> with \<open>2 ^ e \<le> \<bar>x\<bar> < 2 ^ (e + 1)\<close>, for \<open>x \<noteq> 0\<close>\<close>
  "float_exponent x =
     (if 1 \<le> \<bar>x\<bar> then bitlen \<lfloor>\<bar>x\<bar>\<rfloor> - 1
      else - bitlen (\<lceil>1 / \<bar>x\<bar>\<rceil> - 1))"

definition fl :: "real \<Rightarrow> real" where
  "fl x =
     (if x = 0 then 0
      else let e = float_exponent x - 52
           in of_int (round_half_even (x / 2 powi e)) * 2 powi e)"

definition py_float :: "int \<Rightarrow> real" where
  \<comment> \<open>the conversion \<^verbatim>\<open>float(i)\<close> that mixed int/float arithmetic applies\<close>
  "py_float i = fl (of_int i)"

definition float_add :: "real \<Rightarrow> real \<Rightarrow> real" where
  "float_add x y = fl (x + y)"

definition float_mul :: "real \<Rightarrow> real \<Rightarrow> real" where
  "float_mul x y = fl (x * y)"

definition float_sub :: "real \<Rightarrow> real \<Rightarrow> real" where
  "float_sub x y = fl (x - y)"

subsection \<open>Strings\<close>

definition digit_char :: "nat \<Rightarrow> char" where
  "digit_char d = char_of (48 + d)"

function str_nat :: "nat \<Rightarrow> string" where
  "str_nat n = (if n < 10 then [digit_char n] else str_nat (n div 10) @ [digit_char (n mod 10)])"
  by pat_completeness auto
termination
  by (relation "measure (\<lambda>n. n)") auto

definition str_int :: "int \<Rightarrow> string" where
  \<comment> \<open>\<^verbatim>\<open>str(i)\<close> of a Python int\<close>
  "str_int i = (if i < 0 then CHR ''-'' # str_nat (nat (- i)) else str_nat (nat i))"

fun join :: "string \<Rightarrow> string list \<Rightarrow> string" where
  \<comment> \<open>\<^verbatim>\<open>sep.join(xs)\<close>\<close>
  "join sep [] = []"
| "join sep [x] = x"
| "join sep (x # y # ys) = x @ sep @ join sep (y # ys)"

section \<open>Data model\<close>

datatype TaskStatus = PENDING | RUNNING | COMPLETED | FAILED

record TaskResult =
  task_name :: string
  status :: TaskStatus
  start_time :: "real option"
  end_time :: "real option"
  error :: "string option"
  duration :: real

record Task =
  name :: string
  dependencies :: "string list"
  execution_time :: real
  failure_rate :: real
  task_status :: TaskStatus

text \<open>
  A DLQ entry is the dictionary \<^verbatim>\<open>{"task", "reason", "timestamp"}\<close>, with the key
  \<^verbatim>\<open>"context"\<close> present only when a non-empty context was passed.
\<close>

record failure_record =
  task :: string
  reason :: string
  timestamp :: real
  failure_context :: "(string \<times> string) list option"

text \<open>
  Python dictionaries keep insertion order and \<^verbatim>\<open>d[k] = v\<close> keeps the position of
  an existing key: association lists with \<^const>\<open>AList.update\<close>.
\<close>

record ExecutionContext =
  seed :: int
  task_results :: "(string \<times> TaskResult) list"
  execution_order :: "string list"
  dlq :: "failure_record list"

definition is_task_completed :: "ExecutionContext \<Rightarrow> string \<Rightarrow> bool" where
  "is_task_completed c n =
     (case map_of (task_results c) n of
        None \<Rightarrow> False
      | Some result \<Rightarrow> status result = COMPLETED)"

definition is_task_failed :: "ExecutionContext \<Rightarrow> string \<Rightarrow> bool" where
  "is_task_failed c n =
     (case map_of (task_results c) n of
        None \<Rightarrow> False
      | Some result \<Rightarrow> status result = FAILED)"

fun can_execute_deps :: "ExecutionContext \<Rightarrow> string list \<Rightarrow> bool" where
  "can_execute_deps c [] = True"
| "can_execute_deps c (dep # deps) =
     (if dep \<notin> fst ` set (task_results c) \<or> \<not> is_task_completed c dep then False
      else can_execute_deps c deps)"

definition can_execute_task :: "ExecutionContext \<Rightarrow> Task \<Rightarrow> bool" where
  "can_execute_task c t = can_execute_deps c (dependencies t)"

definition clone :: "ExecutionContext \<Rightarrow> ExecutionContext" where
  "clone c =
     \<lparr>seed = seed c, task_results = task_results c,
      execution_order = execution_order c, dlq = dlq c\<rparr>"

subsection \<open>DeterministicRandom\<close>

text \<open>
  A \<^verbatim>\<open>random.Random\<close> object is its seed and the number of values drawn so far.
  \<^verbatim>\<open>get_rng\<close> returns the cached object itself, so a draw advances the generator
  stored in \<open>states\<close>.
\<close>

record py_random =
  random_seed :: int
  drawn :: nat

record DeterministicRandom =
  rng_seed :: int
  states :: "(string \<times> py_random) list"

definition DeterministicRandom_init :: "int \<Rightarrow> DeterministicRandom" where
  "DeterministicRandom_init s = \<lparr>rng_seed = s, states = []\<rparr>"

definition context_seed :: "py_runtime \<Rightarrow> int \<Rightarrow> string \<Rightarrow> int" where
  "context_seed py s ctx = (s + hash_str py ctx) mod 2 ^ 32"

definition get_rng :: "py_runtime \<Rightarrow> DeterministicRandom \<Rightarrow> string \<Rightarrow> py_random \<times> DeterministicRandom" where
  "get_rng py g ctx =
     (case map_of (states g) ctx of
        None \<Rightarrow>
          (let r = \<lparr>random_seed = context_seed py (rng_seed g) ctx, drawn = 0\<rparr>
           in (r, g\<lparr>states := AList.update ctx r (states g)\<rparr>))
      | Some r \<Rightarrow> (r, g))"

definition random_draw :: "py_runtime \<Rightarrow> py_random \<Rightarrow> real \<times> py_random" where
  \<comment> \<open>\<^verbatim>\<open>rng.random()\<close>\<close>
  "random_draw py r = (mt_random py (random_seed r) (drawn r), r\<lparr>drawn := Suc (drawn r)\<rparr>)"

subsection \<open>DLQSystem\<close>

record DLQSystem =
  failures :: "failure_record list"
  dlq_seed :: int
  counter :: nat

definition DLQSystem_init :: "int \<Rightarrow> DLQSystem" where
  "DLQSystem_init s = \<lparr>failures = [], dlq_seed = s, counter = 0\<rparr>"

text \<open>
  The timestamp multiplies the counter, converted to a float, by the double nearest to
  \<open>0.001\<close> and adds the product to the seed, converted to a float.
\<close>

definition deterministic_timestamp :: "int \<Rightarrow> nat \<Rightarrow> real" where
  \<comment> \<open>\<^verbatim>\<open>self.seed + self.counter * 0.001\<close>\<close>
  "deterministic_timestamp s k =
     float_add (py_float s) (float_mul (py_float (int k)) (fl (1 / 1000)))"

definition add_failure ::
  "DLQSystem \<Rightarrow> string \<Rightarrow> string \<Rightarrow> (string \<times> string) list option \<Rightarrow> DLQSystem" where
  "add_failure d n r ctx =
     (let ts = deterministic_timestamp (dlq_seed d) (counter d);
          rec = \<lparr>task = n, reason = r, timestamp = ts,
                 failure_context = (case ctx of None \<Rightarrow> None | Some c \<Rightarrow> if c = [] then None else Some c)\<rparr>
      in d\<lparr>counter := counter d + 1, failures := failures d @ [rec]\<rparr>)"

definition get_failures :: "DLQSystem \<Rightarrow> failure_record list" where
  "get_failures d = failures d"

subsection \<open>The renderer collaborator\<close>

text \<open>
  A renderer is any object with the hooks \<^verbatim>\<open>task_started\<close>, \<^verbatim>\<open>task_completed\<close> and
  \<^verbatim>\<open>task_failed\<close>. The engine hands a hook the task name and nothing else, so a hook
  acts on the renderer's own state; it then either returns or raises an exception of
  class \<^verbatim>\<open>Exception\<close> (the class that the engine's \<^verbatim>\<open>except\<close> clauses catch).
\<close>

datatype hook_outcome = Returned | Raised

record 'r renderer_obj =
  self :: 'r
  task_started :: "'r \<Rightarrow> string \<Rightarrow> hook_outcome \<times> 'r"
  task_completed :: "'r \<Rightarrow> string \<Rightarrow> hook_outcome \<times> 'r"
  task_failed :: "'r \<Rightarrow> string \<Rightarrow> hook_outcome \<times> 'r"

text \<open>
  \<^verbatim>\<open>ConsoleRenderer\<close> of \<^verbatim>\<open>src/pipeline/renderer.py\<close>. Its state carries the
  standard output it prints to: the lines written so far, and whether writing raises.
\<close>

record ConsoleRenderer =
  enabled :: bool
  fail_on_task :: "string option"
  stdout_lines :: "string list"
  stdout_broken :: bool






definition disable :: "ConsoleRenderer \<Rightarrow> ConsoleRenderer" where
  "disable r = r\<lparr>enabled := False\<rparr>"

text \<open>
  The guarded call of a hook in the scheduler:
  \<^verbatim>\<open>if renderer: try: hook(task_name) except Exception: pass\<close>.
\<close>

definition notify ::
  "('r renderer_obj \<Rightarrow> 'r \<Rightarrow> string \<Rightarrow> hook_outcome \<times> 'r) \<Rightarrow> 'r renderer_obj option \<Rightarrow> string
     \<Rightarrow> 'r renderer_obj option" where
  "notify hook rend n =
     (case rend of
        None \<Rightarrow> None
      | Some r \<Rightarrow>
          (case hook r (self r) n of
             (Returned, r') \<Rightarrow> Some (r\<lparr>self := r'\<rparr>)
           | (Raised, r') \<Rightarrow> Some (r\<lparr>self := r'\<rparr>)))"

section \<open>PipelineEngine\<close>

record task_config =
  cfg_name :: string
  cfg_dependencies :: "string list option"
  cfg_execution_time :: "real option"
  cfg_failure_rate :: "real option"

record config =
  cfg_seed :: "int option"
  cfg_tasks :: "task_config list option"

record PipelineEngine =
  tasks :: "(string \<times> Task) list"
  dlq_system :: "DLQSystem option"
  random_generator :: "DeterministicRandom option"

definition PipelineEngine_init :: PipelineEngine where
  "PipelineEngine_init = \<lparr>tasks = [], dlq_system = None, random_generator = None\<rparr>"

definition add_task :: "PipelineEngine \<Rightarrow> Task \<Rightarrow> PipelineEngine" where
  "add_task e t = e\<lparr>tasks := AList.update (name t) t (tasks e)\<rparr>"

definition get_default :: "'a option \<Rightarrow> 'a \<Rightarrow> 'a" where
  \<comment> \<open>\<^verbatim>\<open>d.get(key, default)\<close>, the looked-up entry given as an option\<close>
  "get_default v d = (case v of None \<Rightarrow> d | Some x \<Rightarrow> x)"

definition make_task :: "task_config \<Rightarrow> Task" where
  "make_task tc =
     \<lparr>name = cfg_name tc,
      dependencies = get_default (cfg_dependencies tc) [],
      execution_time = get_default (cfg_execution_time tc) 1,
      failure_rate = get_default (cfg_failure_rate tc) 0,
      task_status = PENDING\<rparr>"

fun parse_tasks :: "PipelineEngine \<Rightarrow> task_config list \<Rightarrow> PipelineEngine" where
  "parse_tasks e [] = e"
| "parse_tasks e (tc # tcs) = parse_tasks (add_task e (make_task tc)) tcs"

definition parse_config :: "PipelineEngine \<Rightarrow> config \<Rightarrow> PipelineEngine" where
  "parse_config e cfg = parse_tasks e (get_default (cfg_tasks cfg) [])"

subsection \<open>Executing one task\<close>

definition rng_key :: "ExecutionContext \<Rightarrow> Task \<Rightarrow> string" where
  \<comment> \<open>the f-string \<^verbatim>\<open>f"{context.seed}:{task.name}"\<close>\<close>
  "rng_key c t = str_int (seed c) @ '':'' @ name t"

text \<open>
  \<^verbatim>\<open>_execute_task\<close>. The start time is the literal \<^verbatim>\<open>0.0\<close>, so the end time is
  \<^verbatim>\<open>0.0 + execution_time\<close>. The \<^verbatim>\<open>except\<close> branch is reached only by a value of the
  wrong type in the configuration, which the typed records exclude.
\<close>

definition execute_task ::
  "py_runtime \<Rightarrow> DeterministicRandom \<Rightarrow> Task \<Rightarrow> ExecutionContext \<Rightarrow> TaskResult \<times> DeterministicRandom" where
  "execute_task py g t c =
     (let (r, g1) = get_rng py g (rng_key c t);
          (x, r') = random_draw py r;
          g2 = g1\<lparr>states := AList.update (rng_key c t) r' (states g1)\<rparr>;
          success = (failure_rate t < x)
      in (\<lparr>task_name = name t,
           status = (if success then COMPLETED else FAILED),
           start_time = Some 0,
           end_time = Some (float_add 0 (execution_time t)),
           error = (if success then None else Some ''Task failed due to configured failure rate''),
           duration = execution_time t\<rparr>, g2))"

subsection \<open>The scheduler loop\<close>

text \<open>
  The state of \<^verbatim>\<open>_execute_tasks\<close>: its local variables, the two collaborators of
  \<^verbatim>\<open>self\<close> that it mutates, and the renderer.
\<close>

record 'r scheduler =
  current_context :: ExecutionContext
  remaining_tasks :: "string set"
  processed_tasks :: "string set"
  executable_tasks :: "string list"
  sched_dlq :: DLQSystem
  sched_random :: DeterministicRandom
  renderer :: "'r renderer_obj option"

text \<open>The loop over the dependencies of one task (lines 186 to 194).\<close>

fun check_dependencies ::
  "(string \<times> Task) list \<Rightarrow> ExecutionContext \<Rightarrow> string list \<Rightarrow> bool \<times> string list \<times> string list
     \<Rightarrow> bool \<times> string list \<times> string list" where
  "check_dependencies ts c [] acc = acc"
| "check_dependencies ts c (dep # deps) (can_execute, missing_deps, failed_deps) =
     (if dep \<notin> fst ` set ts then
        check_dependencies ts c deps (False, missing_deps @ [dep], failed_deps)
      else if \<not> is_task_completed c dep then
        check_dependencies ts c deps
          (False, missing_deps, if is_task_failed c dep then failed_deps @ [dep] else failed_deps)
      else check_dependencies ts c deps (can_execute, missing_deps, failed_deps))"

text \<open>
  The body of the classification loop for one name (lines 179 to 216). The lookup
  \<^verbatim>\<open>self.tasks[task_name]\<close> raises \<^verbatim>\<open>KeyError\<close> for an unknown name; the names come
  from \<^verbatim>\<open>set(self.tasks.keys())\<close>, so the lookup succeeds, and the model leaves the
  state as it is for a name that is not a key.
\<close>

definition classify_task :: "(string \<times> Task) list \<Rightarrow> string \<Rightarrow> 'r scheduler \<Rightarrow> 'r scheduler" where
  "classify_task ts n s =
     (case map_of ts n of
        None \<Rightarrow> s
      | Some t \<Rightarrow>
          (case check_dependencies ts (current_context s) (dependencies t) (True, [], []) of
             (can_execute, missing_deps, failed_deps) \<Rightarrow>
               if missing_deps \<noteq> [] then
                 s\<lparr>sched_dlq := add_failure (sched_dlq s) n
                                  (''Missing dependencies: '' @ join '', '' missing_deps) None,
                   processed_tasks := insert n (processed_tasks s),
                   remaining_tasks := remaining_tasks s - {n}\<rparr>
               else if failed_deps \<noteq> [] then
                 s\<lparr>sched_dlq := add_failure (sched_dlq s) n
                                  (''Failed dependencies: '' @ join '', '' failed_deps) None,
                   processed_tasks := insert n (processed_tasks s),
                   remaining_tasks := remaining_tasks s - {n}\<rparr>
               else if can_execute then s\<lparr>executable_tasks := executable_tasks s @ [n]\<rparr>
               else s))"

fun classify_tasks :: "(string \<times> Task) list \<Rightarrow> string list \<Rightarrow> 'r scheduler \<Rightarrow> 'r scheduler" where
  "classify_tasks ts [] s = s"
| "classify_tasks ts (n # ns) s = classify_tasks ts ns (classify_task ts n s)"

text \<open>The deadlock branch (lines 219 to 227).\<close>

fun deadlock_tasks :: "string list \<Rightarrow> 'r scheduler \<Rightarrow> 'r scheduler" where
  "deadlock_tasks [] s = s"
| "deadlock_tasks (n # ns) s =
     deadlock_tasks ns
       (s\<lparr>sched_dlq := add_failure (sched_dlq s) n
                         ''Circular dependency or unresolvable dependencies'' None,
          processed_tasks := insert n (processed_tasks s)\<rparr>)"

text \<open>
  The body of the execution loop for one name (lines 231 to 259). The names come from
  the executable list, whose members are keys of the store; as in the classification
  loop, the model leaves the state as it is for a name that is not a key.
\<close>

definition run_task :: "py_runtime \<Rightarrow> (string \<times> Task) list \<Rightarrow> string \<Rightarrow> 'r scheduler \<Rightarrow> 'r scheduler" where
  "run_task py ts n s =
     (case map_of ts n of
        None \<Rightarrow> s
      | Some t \<Rightarrow>
          (let rend1 = notify task_started (renderer s) n;
               (task_result, g) = execute_task py (sched_random s) t (current_context s);
               c = (current_context s)
                     \<lparr>task_results := AList.update n task_result (task_results (current_context s)),
                      execution_order := execution_order (current_context s) @ [n]\<rparr>;
               rend2 = (if status task_result = COMPLETED
                        then notify task_completed rend1 n
                        else notify task_failed rend1 n)
           in s\<lparr>processed_tasks := insert n (processed_tasks s),
                remaining_tasks := remaining_tasks s - {n},
                sched_random := g,
                current_context := c,
                renderer := rend2\<rparr>))"

fun run_tasks :: "py_runtime \<Rightarrow> (string \<times> Task) list \<Rightarrow> string list \<Rightarrow> 'r scheduler \<Rightarrow> 'r scheduler" where
  "run_tasks py ts [] s = s"
| "run_tasks py ts (n # ns) s = run_tasks py ts ns (run_task py ts n s)"

text \<open>One pass of the classification loop over the sorted remaining names.\<close>

definition classify_round :: "(string \<times> Task) list \<Rightarrow> 'r scheduler \<Rightarrow> 'r scheduler" where
  "classify_round ts s =
     classify_tasks ts (sorted_list_of_set (remaining_tasks s)) (s\<lparr>executable_tasks := []\<rparr>)"

text \<open>The \<^verbatim>\<open>while remaining_tasks:\<close> loop (lines 174 to 259).\<close>

function scheduler_loop :: "py_runtime \<Rightarrow> (string \<times> Task) list \<Rightarrow> 'r scheduler \<Rightarrow> 'r scheduler" where
  "scheduler_loop py ts s =
     (if remaining_tasks s = {} then s
      else
        (let s1 = classify_round ts s
         in if executable_tasks s1 = [] then
              deadlock_tasks (sorted_list_of_set (remaining_tasks s1)) s1
            else scheduler_loop py ts (run_tasks py ts (sort (executable_tasks s1)) s1)))"
  by pat_completeness auto

text \<open>
  \<^verbatim>\<open>_execute_tasks\<close>, with the task store, the DLQ recorder and the random source of
  \<^verbatim>\<open>self\<close> as arguments; it returns the final context and the collaborators as the
  loop left them.
\<close>

definition initial_scheduler ::
  "(string \<times> Task) list \<Rightarrow> DLQSystem \<Rightarrow> DeterministicRandom \<Rightarrow> ExecutionContext
     \<Rightarrow> 'r renderer_obj option \<Rightarrow> 'r scheduler" where
  "initial_scheduler ts d g c rend =
     \<lparr>current_context = clone c,
      remaining_tasks = set (map fst ts),
      processed_tasks = {},
      executable_tasks = [],
      sched_dlq = d,
      sched_random = g,
      renderer = rend\<rparr>"

definition execute_tasks ::
  "py_runtime \<Rightarrow> (string \<times> Task) list \<Rightarrow> DLQSystem \<Rightarrow> DeterministicRandom \<Rightarrow> ExecutionContext
     \<Rightarrow> 'r renderer_obj option
     \<Rightarrow> ExecutionContext \<times> DLQSystem \<times> DeterministicRandom \<times> 'r renderer_obj option" where
  "execute_tasks py ts d g c rend =
     (let s = scheduler_loop py ts (initial_scheduler ts d g c rend)
      in ((current_context s)\<lparr>dlq := get_failures (sched_dlq s)\<rparr>,
          sched_dlq s, sched_random s, renderer s))"

subsection \<open>The report\<close>

record report_summary =
  total_tasks :: nat
  completed_count :: nat
  failed_count :: nat
  dlq_count :: nat
  total_duration :: real

record report =
  summary :: report_summary
  completed_tasks :: "string list"
  failed_tasks :: "string list"
  report_dlq :: "failure_record list"
  report_execution_order :: "string list"
  task_durations :: "(string \<times> real) list"

definition names_with_status :: "TaskStatus \<Rightarrow> (string \<times> TaskResult) list \<Rightarrow> string list" where
  "names_with_status st rs = map fst (filter (\<lambda>(n, result). status result = st) rs)"

definition generate_result :: "(string \<times> Task) list \<Rightarrow> ExecutionContext \<Rightarrow> real \<Rightarrow> report" where
  "generate_result ts c dur =
     (let completed = names_with_status COMPLETED (task_results c);
          failed = names_with_status FAILED (task_results c)
      in \<lparr>summary =
            \<lparr>total_tasks = length ts,
             completed_count = length completed,
             failed_count = length failed,
             dlq_count = length (dlq c),
             total_duration = dur\<rparr>,
          completed_tasks = completed,
          failed_tasks = failed,
          report_dlq = dlq c,
          report_execution_order = execution_order c,
          task_durations = map (\<lambda>(n, result). (n, duration result)) (task_results c)\<rparr>)"

subsection \<open>run\<close>

definition new_context :: "int \<Rightarrow> ExecutionContext" where
  \<comment> \<open>\<^verbatim>\<open>ExecutionContext(seed=seed)\<close>\<close>
  "new_context s = \<lparr>seed = s, task_results = [], execution_order = [], dlq = []\<rparr>"

definition run_context ::
  "py_runtime \<Rightarrow> PipelineEngine \<Rightarrow> config \<Rightarrow> 'r renderer_obj option
     \<Rightarrow> ExecutionContext \<times> DLQSystem \<times> DeterministicRandom \<times> 'r renderer_obj option" where
  \<comment> \<open>the first half of \<^verbatim>\<open>run\<close>, up to \<^verbatim>\<open>final_context\<close>\<close>
  "run_context py e cfg rend =
     (let s = get_default (cfg_seed cfg) 42;
          e1 = parse_config e cfg
      in execute_tasks py (tasks e1) (DLQSystem_init s) (DeterministicRandom_init s) (new_context s) rend)"

definition run ::
  "py_runtime \<Rightarrow> PipelineEngine \<Rightarrow> config \<Rightarrow> 'r renderer_obj option
     \<Rightarrow> report \<times> PipelineEngine \<times> 'r renderer_obj option" where
  "run py e cfg rend =
     (let start = 0;
          e1 = parse_config e cfg
      in case run_context py e cfg rend of
           (final_context, d, g, rend') \<Rightarrow>
             (let finish = float_mul (py_float (int (length (execution_order final_context)))) (fl (1 / 10))
              in (generate_result (tasks e1) final_context (float_sub finish start),
                  e1\<lparr>dlq_system := Some d, random_generator := Some g\<rparr>,
                  rend')))"

section \<open>Specification-level notions\<close>

text \<open>
  \<open>loop_reaches py ts s s'\<close>: the \<^verbatim>\<open>while\<close> loop, started in state \<open>s\<close>, stands at its
  head in state \<open>s'\<close> (after zero or more complete rounds, none of which took the
  deadlock branch).
\<close>

inductive loop_reaches ::
  "py_runtime \<Rightarrow> (string \<times> Task) list \<Rightarrow> 'r scheduler \<Rightarrow> 'r scheduler \<Rightarrow> bool"
  for py :: py_runtime and ts :: "(string \<times> Task) list" where
  at_start: "loop_reaches py ts s s"
| next_round:
    "remaining_tasks s \<noteq> {} \<Longrightarrow> executable_tasks (classify_round ts s) \<noteq> [] \<Longrightarrow>
     loop_reaches py ts (run_tasks py ts (sort (executable_tasks (classify_round ts s))) (classify_round ts s)) s' \<Longrightarrow>
     loop_reaches py ts s s'"

text \<open>The state in which \<^verbatim>\<open>run\<close> enters the loop.\<close>

definition run_scheduler ::
  "PipelineEngine \<Rightarrow> config \<Rightarrow> 'r renderer_obj option \<Rightarrow> 'r scheduler" where
  "run_scheduler e cfg rend =
     (let s = get_default (cfg_seed cfg) 42
      in initial_scheduler (tasks (parse_config e cfg)) (DLQSystem_init s)
           (DeterministicRandom_init s) (new_context s) rend)"


definition missing_dependencies :: "(string \<times> Task) list \<Rightarrow> Task \<Rightarrow> string list" where
  "missing_dependencies ts t = filter (\<lambda>dep. dep \<notin> fst ` set ts) (dependencies t)"

text \<open>
  What the classification loop decides for a name \<open>n\<close> against a context \<open>c\<close>: the
  dependencies it reports as failed, whether all dependencies are complete, whether the
  task is routed to the DLQ (\<open>blocked\<close>) and with which reason, and whether it joins the
  executable list (\<open>ready\<close>).
\<close>

definition failed_dependencies :: "(string \<times> Task) list \<Rightarrow> ExecutionContext \<Rightarrow> Task \<Rightarrow> string list" where
  "failed_dependencies ts c t =
     filter (\<lambda>dep. dep \<in> fst ` set ts \<and> is_task_failed c dep) (dependencies t)"

definition dependencies_completed :: "(string \<times> Task) list \<Rightarrow> ExecutionContext \<Rightarrow> Task \<Rightarrow> bool" where
  "dependencies_completed ts c t =
     list_all (\<lambda>dep. dep \<in> fst ` set ts \<and> is_task_completed c dep) (dependencies t)"

definition blocked :: "(string \<times> Task) list \<Rightarrow> ExecutionContext \<Rightarrow> string \<Rightarrow> bool" where
  "blocked ts c n =
     (case map_of ts n of
        None \<Rightarrow> False
      | Some t \<Rightarrow> missing_dependencies ts t \<noteq> [] \<or> failed_dependencies ts c t \<noteq> [])"

definition block_reason :: "(string \<times> Task) list \<Rightarrow> ExecutionContext \<Rightarrow> string \<Rightarrow> string" where
  "block_reason ts c n =
     (case map_of ts n of
        None \<Rightarrow> []
      | Some t \<Rightarrow>
          if missing_dependencies ts t \<noteq> []
          then ''Missing dependencies: '' @ join '', '' (missing_dependencies ts t)
          else ''Failed dependencies: '' @ join '', '' (failed_dependencies ts c t))"

definition ready :: "(string \<times> Task) list \<Rightarrow> ExecutionContext \<Rightarrow> string \<Rightarrow> bool" where
  "ready ts c n =
     (case map_of ts n of
        None \<Rightarrow> False
      | Some t \<Rightarrow> dependencies_completed ts c t)"

definition dlq_tasks :: "'r scheduler \<Rightarrow> string list" where
  "dlq_tasks s = map task (failures (sched_dlq s))"

definition dlq_reasons :: "'r scheduler \<Rightarrow> (string \<times> string) list" where
  "dlq_reasons s = map (\<lambda>e. (task e, reason e)) (failures (sched_dlq s))"

definition executed :: "'r scheduler \<Rightarrow> string list" where
  "executed s = execution_order (current_context s)"

text \<open>
  The invariant of the loop head: the remaining names, the executed names and the names
  in the DLQ partition the keys of the task store, and nothing is recorded twice.
\<close>

definition sched_inv :: "(string \<times> Task) list \<Rightarrow> 'r scheduler \<Rightarrow> bool" where
  "sched_inv ts s \<longleftrightarrow>
     finite (remaining_tasks s) \<and>
     map fst (task_results (current_context s)) = executed s \<and>
     distinct (executed s) \<and> distinct (dlq_tasks s) \<and>
     set (executed s) \<inter> remaining_tasks s = {} \<and>
     set (dlq_tasks s) \<inter> remaining_tasks s = {} \<and>
     set (executed s) \<inter> set (dlq_tasks s) = {} \<and>
     remaining_tasks s \<union> set (executed s) \<union> set (dlq_tasks s) = fst ` set ts"

text \<open>The state in which the loop of a run ends.\<close>

definition final_scheduler ::
  "py_runtime \<Rightarrow> PipelineEngine \<Rightarrow> config \<Rightarrow> 'r renderer_obj option \<Rightarrow> 'r scheduler" where
  "final_scheduler py e cfg rend =
     scheduler_loop py (tasks (parse_config e cfg)) (run_scheduler e cfg rend)"

text \<open>What holds when the loop has ended: executed names and DLQ names partition the store.\<close>

definition partitioned :: "(string \<times> Task) list \<Rightarrow> 'r scheduler \<Rightarrow> bool" where
  "partitioned ts s \<longleftrightarrow>
     map fst (task_results (current_context s)) = executed s \<and>
     distinct (executed s) \<and> distinct (dlq_tasks s) \<and>
     set (executed s) \<inter> set (dlq_tasks s) = {} \<and>
     set (executed s) \<union> set (dlq_tasks s) = fst ` set ts"

definition no_renderer :: "unit renderer_obj option" where
  "no_renderer = None"

text \<open>The scheduler state without its renderer.\<close>

definition without_renderer :: "'r scheduler \<Rightarrow> unit scheduler" where
  "without_renderer s =
     \<lparr>current_context = current_context s,
      remaining_tasks = remaining_tasks s,
      processed_tasks = processed_tasks s,
      executable_tasks = executable_tasks s,
      sched_dlq = sched_dlq s,
      sched_random = sched_random s,
      renderer = None\<rparr>"

text \<open>
  The key under which the task \<open>n\<close> draws in a run with seed \<open>sd\<close>, the first value of
  the generator that \<open>get_rng\<close> creates for that key, and the status this value gives a
  task. In a store filled by \<open>add_task\<close> every task is filed under its own name.
\<close>

definition task_key :: "int \<Rightarrow> string \<Rightarrow> string" where
  "task_key sd n = str_int sd @ '':'' @ n"

definition task_draw :: "py_runtime \<Rightarrow> int \<Rightarrow> string \<Rightarrow> real" where
  "task_draw py sd n = mt_random py (context_seed py sd (task_key sd n)) 0"

definition task_outcome :: "py_runtime \<Rightarrow> int \<Rightarrow> Task \<Rightarrow> TaskStatus" where
  "task_outcome py sd t =
     (if failure_rate t < task_draw py sd (name t) then COMPLETED else FAILED)"

definition store_ok :: "(string \<times> Task) list \<Rightarrow> bool" where
  "store_ok ts = list_all (\<lambda>(k, t). name t = k) ts"

definition draws_fresh :: "py_runtime \<Rightarrow> (string \<times> Task) list \<Rightarrow> int \<Rightarrow> 'r scheduler \<Rightarrow> bool" where
  "draws_fresh py ts sd s \<longleftrightarrow>
     rng_seed (sched_random s) = sd \<and> seed (current_context s) = sd \<and>
     fst ` set (states (sched_random s)) \<subseteq> task_key sd ` set (executed s) \<and>
     (\<forall>n r. map_of (task_results (current_context s)) n = Some r \<longrightarrow>
        (\<exists>t. map_of ts n = Some t \<and> status r = task_outcome py sd t))"

text \<open>
  The entries of a DLQ recorder carry, in insertion order, the timestamps computed from
  the counter values 0, 1, 2 and so on.
\<close>

definition dlq_stamped :: "int \<Rightarrow> DLQSystem \<Rightarrow> bool" where
  "dlq_stamped sd d \<longleftrightarrow>
     dlq_seed d = sd \<and> counter d = length (failures d) \<and>
     map timestamp (failures d) = map (deterministic_timestamp sd) [0..<length (failures d)]"

section \<open>Example inputs\<close>

definition simple_task :: "string \<Rightarrow> string list \<Rightarrow> real \<Rightarrow> task_config" where
  "simple_task n deps fr =
     \<lparr>cfg_name = n, cfg_dependencies = Some deps, cfg_execution_time = None,
      cfg_failure_rate = Some fr\<rparr>"

definition half_runtime :: py_runtime where
  \<comment> \<open>a runtime whose every draw is \<open>1 / 2\<close>\<close>
  "half_runtime = \<lparr>hash_str = (\<lambda>s. int (length s)), mt_random = (\<lambda>s k. 1 / 2)\<rparr>"



definition two_ghosts_config :: config where
  "two_ghosts_config =
     \<lparr>cfg_seed = Some 9007199254740992,
      cfg_tasks = Some [simple_task ''task_a'' [''ghost''] 0, simple_task ''task_b'' [''ghost''] 0]\<rparr>"

definition first_config :: config where
  "first_config = \<lparr>cfg_seed = Some 42, cfg_tasks = Some [simple_task ''task_a'' [] 0]\<rparr>"

definition second_config :: config where
  "second_config = \<lparr>cfg_seed = Some 42, cfg_tasks = Some [simple_task ''task_b'' [] 0]\<rparr>"



definition chain_config :: config where
  "chain_config =
     \<lparr>cfg_seed = Some 999,
      cfg_tasks = Some [simple_task ''task_a'' [] 0, simple_task ''task_b'' [''task_a''] 0,
                        simple_task ''task_c'' [''task_a'', ''task_b''] 0]\<rparr>"

definition chain_second_round :: "unit scheduler" where
  \<comment> \<open>the loop state of the run of \<open>chain_config\<close> after its first round\<close>
  "chain_second_round =
     run_tasks half_runtime (tasks (parse_config PipelineEngine_init chain_config))
       (sort (executable_tasks
                (classify_round (tasks (parse_config PipelineEngine_init chain_config))
                   (run_scheduler PipelineEngine_init chain_config no_renderer))))
       (classify_round (tasks (parse_config PipelineEngine_init chain_config))
          (run_scheduler PipelineEngine_init chain_config no_renderer))"




definition half_rate_config :: config where
  "half_rate_config = \<lparr>cfg_seed = Some 42, cfg_tasks = Some [simple_task ''task_a'' [] (1 / 2)]\<rparr>"

definition salted_runtime :: "int \<Rightarrow> py_runtime" where
  \<comment> \<open>interpreter processes with one generator and string hashes that differ by a salt\<close>
  "salted_runtime salt =
     \<lparr>hash_str = (\<lambda>s. salt + int (length s)),
      mt_random = (\<lambda>sd k. if even sd then 3 / 4 else 1 / 4)\<rparr>"

section \<open>Termination of the scheduler loop\<close>

lemma classify_task_remaining_subset:
  "remaining_tasks (classify_task ts n s) \<subseteq> remaining_tasks s"
  by (auto simp: classify_task_def split: option.splits prod.splits)

lemma classify_tasks_remaining_subset:
  "remaining_tasks (classify_tasks ts ns s) \<subseteq> remaining_tasks s"
proof (induction ns arbitrary: s)
  case Nil
  show ?case by simp
next
  case (Cons n ns)
  have "remaining_tasks (classify_tasks ts ns (classify_task ts n s))
          \<subseteq> remaining_tasks (classify_task ts n s)"
    by (rule Cons.IH)
  also have "\<dots> \<subseteq> remaining_tasks s"
    by (rule classify_task_remaining_subset)
  finally show ?case by simp
qed

lemma classify_tasks_executable_subset:
  assumes "distinct ns" "set ns \<subseteq> remaining_tasks s"
    and "set (executable_tasks s) \<inter> set ns = {}"
    and "set (executable_tasks s) \<subseteq> remaining_tasks s \<inter> fst ` set ts"
  shows "set (executable_tasks (classify_tasks ts ns s))
           \<subseteq> remaining_tasks (classify_tasks ts ns s) \<inter> fst ` set ts"
  using assms
proof (induction ns arbitrary: s)
  case Nil
  then show ?case by simp
next
  case (Cons n ns)
  let ?s = "classify_task ts n s"
  have 1: "distinct ns" using Cons.prems by simp
  have 2: "set ns \<subseteq> remaining_tasks ?s"
    using Cons.prems(1,2)
    by (auto simp: classify_task_def split: option.splits prod.splits)
  have 3: "set (executable_tasks ?s) \<inter> set ns = {}"
    using Cons.prems(1,3)
    by (auto simp: classify_task_def split: option.splits prod.splits)
  have 4: "set (executable_tasks ?s) \<subseteq> remaining_tasks ?s \<inter> fst ` set ts"
    using Cons.prems(2,3,4)
    by (auto simp: classify_task_def rev_image_eqI split: option.splits prod.splits
             dest!: map_of_SomeD)
  show ?case using Cons.IH[OF 1 2 3 4] by simp
qed

lemma run_task_remaining:
  "n \<in> fst ` set ts \<Longrightarrow> remaining_tasks (run_task py ts n s) = remaining_tasks s - {n}"
  by (auto simp: run_task_def Let_def map_of_eq_None_iff split: option.splits prod.splits)

lemma run_tasks_remaining:
  "set ns \<subseteq> fst ` set ts \<Longrightarrow> remaining_tasks (run_tasks py ts ns s) = remaining_tasks s - set ns"
proof (induction ns arbitrary: s)
  case Nil
  show ?case by simp
next
  case (Cons n ns)
  then show ?case by (auto simp: run_task_remaining)
qed

lemma classify_round_infinite:
  "infinite (remaining_tasks s) \<Longrightarrow> classify_round ts s = s\<lparr>executable_tasks := []\<rparr>"
  by (simp add: classify_round_def)

lemma classify_round_executable:
  "set (executable_tasks (classify_round ts s))
     \<subseteq> remaining_tasks (classify_round ts s) \<inter> fst ` set ts"
proof (cases "finite (remaining_tasks s)")
  case True
  then show ?thesis
    unfolding classify_round_def
    by (intro classify_tasks_executable_subset) auto
next
  case False
  then show ?thesis
    by (simp add: classify_round_infinite)
qed

lemma classify_round_remaining_subset:
  "remaining_tasks (classify_round ts s) \<subseteq> remaining_tasks s"
  unfolding classify_round_def
  using classify_tasks_remaining_subset[of ts _ "s\<lparr>executable_tasks := []\<rparr>"] by simp

lemma classify_round_finite:
  "executable_tasks (classify_round ts s) \<noteq> [] \<Longrightarrow> finite (remaining_tasks s)"
proof (rule ccontr)
  assume a: "executable_tasks (classify_round ts s) \<noteq> []" and "infinite (remaining_tasks s)"
  then have "classify_round ts s = s\<lparr>executable_tasks := []\<rparr>"
    by (simp add: classify_round_infinite)
  with a show False by simp
qed

lemma scheduler_round_decreases:
  assumes "executable_tasks (classify_round ts s) \<noteq> []"
  shows "card (remaining_tasks (run_tasks py ts (sort (executable_tasks (classify_round ts s)))
                 (classify_round ts s))) < card (remaining_tasks s)"
proof -
  let ?s1 = "classify_round ts s"
  have fin: "finite (remaining_tasks s)" using assms by (rule classify_round_finite)
  have ex: "set (executable_tasks ?s1) \<subseteq> remaining_tasks ?s1 \<inter> fst ` set ts"
    by (rule classify_round_executable)
  obtain x where x: "x \<in> set (executable_tasks ?s1)"
    using assms by (cases "executable_tasks ?s1") auto
  have eq: "remaining_tasks (run_tasks py ts (sort (executable_tasks ?s1)) ?s1)
              = remaining_tasks ?s1 - set (executable_tasks ?s1)"
    using ex by (simp add: run_tasks_remaining)
  have "remaining_tasks ?s1 - set (executable_tasks ?s1) \<subset> remaining_tasks s"
    using x ex classify_round_remaining_subset[of ts s] by auto
  then show ?thesis
    unfolding eq using fin by (rule psubset_card_mono[rotated])
qed

termination scheduler_loop
  by (relation "measure (\<lambda>(py, ts, s). card (remaining_tasks s))")
     (auto simp: scheduler_round_decreases)

declare scheduler_loop.simps [simp del]

section \<open>Effect of the classification loop\<close>

lemma failed_not_completed: "is_task_failed c n \<Longrightarrow> \<not> is_task_completed c n"
  by (auto simp: is_task_failed_def is_task_completed_def split: option.splits)

lemma check_dependencies_eq:
  "check_dependencies ts c deps (can, m, f) =
     (can \<and> list_all (\<lambda>dep. dep \<in> fst ` set ts \<and> is_task_completed c dep) deps,
      m @ filter (\<lambda>dep. dep \<notin> fst ` set ts) deps,
      f @ filter (\<lambda>dep. dep \<in> fst ` set ts \<and> is_task_failed c dep) deps)"
proof (induction deps arbitrary: can m f)
  case Nil
  show ?case by simp
next
  case (Cons dep deps)
  show ?case
    by (simp add: Cons.IH failed_not_completed)
qed

lemma completed_no_missing:
  "dependencies_completed ts c t \<Longrightarrow> missing_dependencies ts t = []"
  by (auto simp: dependencies_completed_def missing_dependencies_def list_all_iff filter_empty_conv)

lemma completed_no_failed:
  "dependencies_completed ts c t \<Longrightarrow> failed_dependencies ts c t = []"
  by (auto simp: dependencies_completed_def failed_dependencies_def list_all_iff filter_empty_conv
           dest: failed_not_completed)

lemma ready_not_blocked: "ready ts c n \<Longrightarrow> \<not> blocked ts c n"
  by (auto simp: ready_def blocked_def completed_no_missing completed_no_failed split: option.splits)

lemma classify_task_eq:
  "classify_task ts n s =
     (if blocked ts (current_context s) n then
        s\<lparr>sched_dlq := add_failure (sched_dlq s) n (block_reason ts (current_context s) n) None,
          processed_tasks := insert n (processed_tasks s),
          remaining_tasks := remaining_tasks s - {n}\<rparr>
      else if ready ts (current_context s) n then
        s\<lparr>executable_tasks := executable_tasks s @ [n]\<rparr>
      else s)"
proof (cases "map_of ts n")
  case None
  then show ?thesis
    by (simp add: classify_task_def blocked_def ready_def)
next
  case (Some t)
  show ?thesis
  proof (cases "dependencies_completed ts (current_context s) t")
    case True
    then show ?thesis
      using Some completed_no_missing[OF True] completed_no_failed[OF True]
      unfolding classify_task_def check_dependencies_eq
      by (simp add: blocked_def ready_def block_reason_def missing_dependencies_def
            failed_dependencies_def dependencies_completed_def)
  next
    case False
    then show ?thesis
      using Some
      unfolding classify_task_def check_dependencies_eq
      by (simp add: blocked_def ready_def block_reason_def missing_dependencies_def
            failed_dependencies_def dependencies_completed_def)
  qed
qed

lemma add_failure_tasks [simp]:
  "map task (failures (add_failure d n r c)) = map task (failures d) @ [n]"
  by (simp add: add_failure_def Let_def)

lemma add_failure_reasons [simp]:
  "map (\<lambda>e. (task e, reason e)) (failures (add_failure d n r c))
     = map (\<lambda>e. (task e, reason e)) (failures d) @ [(n, r)]"
  by (simp add: add_failure_def Let_def)

lemma add_failure_counter [simp]: "counter (add_failure d n r c) = Suc (counter d)"
  by (simp add: add_failure_def Let_def)

lemma add_failure_seed [simp]: "dlq_seed (add_failure d n r c) = dlq_seed d"
  by (simp add: add_failure_def Let_def)

lemma classify_task_context [simp]:
  "current_context (classify_task ts n s) = current_context s"
  by (simp add: classify_task_eq)

lemma classify_task_random [simp]:
  "sched_random (classify_task ts n s) = sched_random s"
  by (simp add: classify_task_eq)

lemma classify_task_remaining:
  "remaining_tasks (classify_task ts n s)
     = (if blocked ts (current_context s) n then remaining_tasks s - {n} else remaining_tasks s)"
  by (simp add: classify_task_eq)

lemma classify_task_dlq_tasks:
  "dlq_tasks (classify_task ts n s)
     = (if blocked ts (current_context s) n then dlq_tasks s @ [n] else dlq_tasks s)"
  by (simp add: classify_task_eq dlq_tasks_def)


lemma classify_task_executable:
  "executable_tasks (classify_task ts n s)
     = (if ready ts (current_context s) n then executable_tasks s @ [n] else executable_tasks s)"
  by (auto simp: classify_task_eq dest: ready_not_blocked)

lemma classify_tasks_context [simp]:
  "current_context (classify_tasks ts ns s) = current_context s"
  by (induction ns arbitrary: s) simp_all

lemma classify_tasks_random [simp]:
  "sched_random (classify_tasks ts ns s) = sched_random s"
  by (induction ns arbitrary: s) simp_all

lemma classify_tasks_remaining:
  "remaining_tasks (classify_tasks ts ns s)
     = remaining_tasks s - {n \<in> set ns. blocked ts (current_context s) n}"
  by (induction ns arbitrary: s) (auto simp: classify_task_remaining)

lemma classify_tasks_dlq_tasks:
  "dlq_tasks (classify_tasks ts ns s) = dlq_tasks s @ filter (blocked ts (current_context s)) ns"
  by (induction ns arbitrary: s) (auto simp: classify_task_dlq_tasks)


lemma classify_tasks_executable:
  "executable_tasks (classify_tasks ts ns s)
     = executable_tasks s @ filter (ready ts (current_context s)) ns"
  by (induction ns arbitrary: s) (auto simp: classify_task_executable)



lemma classify_round_context [simp]:
  "current_context (classify_round ts s) = current_context s"
  by (simp add: classify_round_def)

lemma classify_round_random [simp]:
  "sched_random (classify_round ts s) = sched_random s"
  by (simp add: classify_round_def)

lemma executed_classify_round [simp]: "executed (classify_round ts s) = executed s"
  by (simp add: executed_def)

lemma classify_round_remaining:
  "finite (remaining_tasks s) \<Longrightarrow>
   remaining_tasks (classify_round ts s)
     = {n \<in> remaining_tasks s. \<not> blocked ts (current_context s) n}"
  by (auto simp: classify_round_def classify_tasks_remaining)

lemma classify_round_dlq_tasks:
  "dlq_tasks (classify_round ts s)
     = dlq_tasks s @ filter (blocked ts (current_context s)) (sorted_list_of_set (remaining_tasks s))"
  unfolding classify_round_def classify_tasks_dlq_tasks by (simp add: dlq_tasks_def)


lemma classify_round_executable_eq:
  "executable_tasks (classify_round ts s)
     = filter (ready ts (current_context s)) (sorted_list_of_set (remaining_tasks s))"
  by (simp add: classify_round_def classify_tasks_executable)

lemma ready_known: "ready ts c n \<Longrightarrow> n \<in> fst ` set ts"
  by (auto simp: ready_def rev_image_eqI split: option.splits dest!: map_of_SomeD)

subsection \<open>Effect of the execution loop\<close>

lemma run_task_eq:
  assumes "map_of ts n = Some t"
  shows "current_context (run_task py ts n s)
           = (current_context s)
               \<lparr>task_results := AList.update n (fst (execute_task py (sched_random s) t (current_context s)))
                                   (task_results (current_context s)),
                execution_order := execution_order (current_context s) @ [n]\<rparr>"
    and "remaining_tasks (run_task py ts n s) = remaining_tasks s - {n}"
    and "sched_dlq (run_task py ts n s) = sched_dlq s"
    and "sched_random (run_task py ts n s)
           = snd (execute_task py (sched_random s) t (current_context s))"
    and "executable_tasks (run_task py ts n s) = executable_tasks s"
  using assms by (simp_all add: run_task_def Let_def split: prod.splits)

lemma run_task_unknown: "map_of ts n = None \<Longrightarrow> run_task py ts n s = s"
  by (simp add: run_task_def)

lemma run_task_dlq [simp]: "sched_dlq (run_task py ts n s) = sched_dlq s"
  by (cases "map_of ts n") (simp_all add: run_task_eq run_task_unknown)

lemma run_tasks_dlq [simp]: "sched_dlq (run_tasks py ts ns s) = sched_dlq s"
  by (induction ns arbitrary: s) simp_all

lemma run_task_seed [simp]:
  "seed (current_context (run_task py ts n s)) = seed (current_context s)"
  by (cases "map_of ts n") (simp_all add: run_task_eq run_task_unknown)

lemma run_tasks_seed [simp]:
  "seed (current_context (run_tasks py ts ns s)) = seed (current_context s)"
  by (induction ns arbitrary: s) simp_all

lemma known_lookup: "n \<in> fst ` set ts \<Longrightarrow> \<exists>t. map_of ts n = Some t"
  by (cases "map_of ts n") (auto simp: map_of_eq_None_iff)

lemma run_task_executed:
  "n \<in> fst ` set ts \<Longrightarrow> executed (run_task py ts n s) = executed s @ [n]"
  by (auto simp: executed_def run_task_eq dest!: known_lookup)

lemma run_tasks_executed:
  "set ns \<subseteq> fst ` set ts \<Longrightarrow> executed (run_tasks py ts ns s) = executed s @ ns"
  by (induction ns arbitrary: s) (simp_all add: run_task_executed)

lemma run_task_result_keys:
  assumes "n \<in> fst ` set ts"
  shows "map fst (task_results (current_context (run_task py ts n s)))
     = (if n \<in> fst ` set (task_results (current_context s))
        then map fst (task_results (current_context s))
        else map fst (task_results (current_context s)) @ [n])"
proof (cases "map_of ts n")
  case None
  with assms show ?thesis by (simp add: map_of_eq_None_iff)
next
  case (Some t)
  have "map fst (task_results (current_context (run_task py ts n s)))
          = map fst (AList.update n (fst (execute_task py (sched_random s) t (current_context s)))
                       (task_results (current_context s)))"
    by (simp add: run_task_eq(1)[OF Some])
  then show ?thesis
    by (simp only: update_keys set_map)
qed

lemma run_tasks_result_keys:
  "set ns \<subseteq> fst ` set ts \<Longrightarrow> distinct ns \<Longrightarrow>
   set ns \<inter> fst ` set (task_results (current_context s)) = {} \<Longrightarrow>
   map fst (task_results (current_context (run_tasks py ts ns s)))
     = map fst (task_results (current_context s)) @ ns"
proof (induction ns arbitrary: s)
  case Nil
  show ?case by simp
next
  case (Cons n ns)
  have k: "map fst (task_results (current_context (run_task py ts n s)))
             = map fst (task_results (current_context s)) @ [n]"
    using Cons.prems by (simp add: run_task_result_keys)
  have "fst ` set (task_results (current_context (run_task py ts n s)))
          = insert n (fst ` set (task_results (current_context s)))"
    using arg_cong[OF k, of set] by simp
  then have "set ns \<inter> fst ` set (task_results (current_context (run_task py ts n s))) = {}"
    using Cons.prems by auto
  then show ?case
    using Cons.prems Cons.IH[of "run_task py ts n s"] k by simp
qed

subsection \<open>Effect of the deadlock branch\<close>

lemma deadlock_tasks_context [simp]:
  "current_context (deadlock_tasks ns s) = current_context s"
  by (induction ns arbitrary: s) simp_all

lemma deadlock_tasks_remaining [simp]:
  "remaining_tasks (deadlock_tasks ns s) = remaining_tasks s"
  by (induction ns arbitrary: s) simp_all

lemma deadlock_tasks_dlq_tasks:
  "dlq_tasks (deadlock_tasks ns s) = dlq_tasks s @ ns"
  by (induction ns arbitrary: s) (simp_all add: dlq_tasks_def)


subsection \<open>Reasoning about the loop\<close>

lemma scheduler_loop_rule:
  assumes init: "I s"
    and step: "\<And>s. I s \<Longrightarrow> remaining_tasks s \<noteq> {} \<Longrightarrow> executable_tasks (classify_round ts s) \<noteq> [] \<Longrightarrow>
                 I (run_tasks py ts (sort (executable_tasks (classify_round ts s))) (classify_round ts s))"
    and finished: "\<And>s. I s \<Longrightarrow> remaining_tasks s = {} \<Longrightarrow> Q s"
    and deadlock: "\<And>s. I s \<Longrightarrow> remaining_tasks s \<noteq> {} \<Longrightarrow> executable_tasks (classify_round ts s) = [] \<Longrightarrow>
                 Q (deadlock_tasks (sorted_list_of_set (remaining_tasks (classify_round ts s)))
                      (classify_round ts s))"
  shows "Q (scheduler_loop py ts s)"
  using assms
proof (induction py ts s rule: scheduler_loop.induct)
  case (1 py ts s)
  note init = "1.prems"(1) and step = "1.prems"(2) and finished = "1.prems"(3)
    and deadlock = "1.prems"(4)
  show ?case
  proof (cases "remaining_tasks s = {}")
    case True
    then show ?thesis
      using finished[OF init] by (simp add: scheduler_loop.simps)
  next
    case False
    show ?thesis
    proof (cases "executable_tasks (classify_round ts s) = []")
      case True
      then show ?thesis
        using False deadlock[OF init False True]
        by (simp add: scheduler_loop.simps[of py ts s] Let_def)
    next
      case nonempty: False
      have "Q (scheduler_loop py ts
                 (run_tasks py ts (sort (executable_tasks (classify_round ts s))) (classify_round ts s)))"
        using step[OF init False nonempty] step finished deadlock
        by (intro "1.IH"[OF False refl nonempty]) blast+
      then show ?thesis
        using False nonempty by (simp add: scheduler_loop.simps[of py ts s] Let_def)
    qed
  qed
qed


lemma loop_reaches_rule:
  assumes "loop_reaches py ts s s'" and "I s"
    and step: "\<And>s. I s \<Longrightarrow> remaining_tasks s \<noteq> {} \<Longrightarrow> executable_tasks (classify_round ts s) \<noteq> [] \<Longrightarrow>
                 I (run_tasks py ts (sort (executable_tasks (classify_round ts s))) (classify_round ts s))"
  shows "I s'"
  using assms(1,2)
proof (induction rule: loop_reaches.induct)
  case (at_start s)
  then show ?case .
next
  case (next_round s s')
  show ?case
    by (rule next_round.IH) (rule step[OF next_round.prems next_round.hyps(1,2)])
qed

subsection \<open>The partition invariant\<close>

lemma sorted_remaining [simp]:
  "finite (remaining_tasks s) \<Longrightarrow> set (sorted_list_of_set (remaining_tasks s)) = remaining_tasks s"
  by simp

lemma executable_round_set:
  "finite (remaining_tasks s) \<Longrightarrow>
   set (executable_tasks (classify_round ts s))
     = {n \<in> remaining_tasks s. ready ts (current_context s) n}"
  by (auto simp: classify_round_executable_eq)

lemma executable_round_distinct: "distinct (executable_tasks (classify_round ts s))"
  by (simp add: classify_round_executable_eq)

lemma executable_round_known:
  "set (executable_tasks (classify_round ts s)) \<subseteq> fst ` set ts"
  by (auto simp: classify_round_executable_eq dest: ready_known)

lemma executable_round_sorted: "sorted (executable_tasks (classify_round ts s))"
  by (simp add: classify_round_executable_eq sorted_wrt_filter)

lemma sort_executable_round [simp]:
  "sort (executable_tasks (classify_round ts s)) = executable_tasks (classify_round ts s)"
  by (simp add: executable_round_sorted sort_key_id_if_sorted)

text \<open>
  Under the invariant every remaining name is a key of the store, so the lookups
  \<^verbatim>\<open>self.tasks[task_name]\<close> of both loops succeed.
\<close>

lemma remaining_known: "sched_inv ts s \<Longrightarrow> remaining_tasks s \<subseteq> fst ` set ts"
  by (auto simp: sched_inv_def)

lemma classify_round_inv:
  assumes "sched_inv ts s"
  shows "sched_inv ts (classify_round ts s)"
proof -
  have fin: "finite (remaining_tasks s)" using assms by (simp add: sched_inv_def)
  show ?thesis
    using assms unfolding sched_inv_def
    by (auto simp: classify_round_remaining[OF fin] classify_round_dlq_tasks fin executed_def)
qed

lemma run_round_inv:
  assumes "sched_inv ts s"
  shows "sched_inv ts (run_tasks py ts (executable_tasks (classify_round ts s)) (classify_round ts s))"
proof -
  let ?s1 = "classify_round ts s"
  let ?E = "executable_tasks ?s1"
  let ?s2 = "run_tasks py ts ?E ?s1"
  have fin: "finite (remaining_tasks s)" using assms by (simp add: sched_inv_def)
  have inv1: "sched_inv ts ?s1" using assms by (rule classify_round_inv)
  have E: "set ?E = {n \<in> remaining_tasks s. ready ts (current_context s) n}"
    using fin by (rule executable_round_set)
  have Ek: "set ?E \<subseteq> fst ` set ts" by (rule executable_round_known)
  have Ed: "distinct ?E" by (rule executable_round_distinct)
  have Esub: "set ?E \<subseteq> remaining_tasks ?s1"
    using E by (auto simp: classify_round_remaining[OF fin] dest: ready_not_blocked)
  have keys1: "map fst (task_results (current_context ?s1)) = executed ?s1"
    using inv1 by (simp add: sched_inv_def)
  have "fst ` set (task_results (current_context ?s1)) = set (executed ?s1)"
    using arg_cong[OF keys1, of set] by simp
  then have disj: "set ?E \<inter> fst ` set (task_results (current_context ?s1)) = {}"
    using Esub inv1 unfolding sched_inv_def by auto
  have r: "remaining_tasks ?s2 = remaining_tasks ?s1 - set ?E"
    using Ek by (rule run_tasks_remaining)
  have e: "executed ?s2 = executed ?s1 @ ?E"
    using Ek by (rule run_tasks_executed)
  have k: "map fst (task_results (current_context ?s2)) = executed ?s1 @ ?E"
    using run_tasks_result_keys[OF Ek Ed disj] keys1 by simp
  have d: "dlq_tasks ?s2 = dlq_tasks ?s1"
    by (simp add: dlq_tasks_def)
  show ?thesis
    using inv1 Esub Ed unfolding sched_inv_def r e k d
    by auto
qed

section \<open>From the loop to the report\<close>

lemma run_context_eq:
  "run_context py e cfg rend =
     (let f = final_scheduler py e cfg rend
      in ((current_context f)\<lparr>dlq := failures (sched_dlq f)\<rparr>,
          sched_dlq f, sched_random f, renderer f))"
  by (simp add: run_context_def execute_tasks_def final_scheduler_def run_scheduler_def
        Let_def get_failures_def)

lemma report_dlq_run:
  "report_dlq (fst (run py e cfg rend)) = failures (sched_dlq (final_scheduler py e cfg rend))"
  by (simp add: run_def run_context_eq generate_result_def Let_def)

lemma report_execution_order_run:
  "report_execution_order (fst (run py e cfg rend)) = executed (final_scheduler py e cfg rend)"
  by (simp add: run_def run_context_eq generate_result_def Let_def executed_def)

lemma failed_tasks_run:
  "failed_tasks (fst (run py e cfg rend))
     = names_with_status FAILED (task_results (current_context (final_scheduler py e cfg rend)))"
  by (simp add: run_def run_context_eq generate_result_def Let_def)

lemma completed_tasks_run:
  "completed_tasks (fst (run py e cfg rend))
     = names_with_status COMPLETED (task_results (current_context (final_scheduler py e cfg rend)))"
  by (simp add: run_def run_context_eq generate_result_def Let_def)

lemma run_scheduler_fields [simp]:
  "remaining_tasks (run_scheduler e cfg rend) = fst ` set (tasks (parse_config e cfg))"
  "executed (run_scheduler e cfg rend) = []"
  "dlq_tasks (run_scheduler e cfg rend) = []"
  "dlq_reasons (run_scheduler e cfg rend) = []"
  "task_results (current_context (run_scheduler e cfg rend)) = []"
  "seed (current_context (run_scheduler e cfg rend)) = get_default (cfg_seed cfg) 42"
  "failures (sched_dlq (run_scheduler e cfg rend)) = []"
  "counter (sched_dlq (run_scheduler e cfg rend)) = 0"
  "dlq_seed (sched_dlq (run_scheduler e cfg rend)) = get_default (cfg_seed cfg) 42"
  "sched_random (run_scheduler e cfg rend) = DeterministicRandom_init (get_default (cfg_seed cfg) 42)"
  by (simp_all add: run_scheduler_def initial_scheduler_def Let_def clone_def new_context_def
        DLQSystem_init_def executed_def dlq_tasks_def dlq_reasons_def)

lemma run_scheduler_inv: "sched_inv (tasks (parse_config e cfg)) (run_scheduler e cfg rend)"
  by (simp add: sched_inv_def)

lemma executed_deadlock_tasks [simp]: "executed (deadlock_tasks ns s) = executed s"
  by (simp add: executed_def)

lemma deadlock_partitioned:
  assumes "sched_inv ts s"
  shows "partitioned ts (deadlock_tasks (sorted_list_of_set (remaining_tasks s)) s)"
proof -
  have fin: "finite (remaining_tasks s)" using assms by (simp add: sched_inv_def)
  show ?thesis
    using assms unfolding sched_inv_def partitioned_def
    by (auto simp: deadlock_tasks_dlq_tasks fin)
qed

lemma scheduler_loop_partitioned:
  assumes "sched_inv ts s"
  shows "partitioned ts (scheduler_loop py ts s)"
  using assms
proof (rule scheduler_loop_rule[where I = "sched_inv ts"])
  fix s :: "'a scheduler"
  assume "sched_inv ts s"
  then show "sched_inv ts (run_tasks py ts (sort (executable_tasks (classify_round ts s)))
                              (classify_round ts s))"
    by (simp add: run_round_inv)
next
  fix s :: "'a scheduler"
  assume "sched_inv ts s" "remaining_tasks s = {}"
  then show "partitioned ts s"
    by (auto simp: sched_inv_def partitioned_def)
next
  fix s :: "'a scheduler"
  assume "sched_inv ts s"
  then have "sched_inv ts (classify_round ts s)" by (rule classify_round_inv)
  then show "partitioned ts (deadlock_tasks (sorted_list_of_set (remaining_tasks (classify_round ts s)))
                               (classify_round ts s))"
    by (rule deadlock_partitioned)
qed

lemma final_partitioned:
  "partitioned (tasks (parse_config e cfg)) (final_scheduler py e cfg rend)"
  unfolding final_scheduler_def by (rule scheduler_loop_partitioned) (rule run_scheduler_inv)

section \<open>Tasks with a missing dependency\<close>





lemma run_tasks_dlq_reasons [simp]: "dlq_reasons (run_tasks py ts ns s) = dlq_reasons s"
  by (simp add: dlq_reasons_def)

lemma run_tasks_dlq_tasks [simp]: "dlq_tasks (run_tasks py ts ns s) = dlq_tasks s"
  by (simp add: dlq_tasks_def)






section \<open>The renderer does not influence the scheduler\<close>

lemma without_renderer_fields [simp]:
  "current_context (without_renderer s) = current_context s"
  "remaining_tasks (without_renderer s) = remaining_tasks s"
  "processed_tasks (without_renderer s) = processed_tasks s"
  "executable_tasks (without_renderer s) = executable_tasks s"
  "sched_dlq (without_renderer s) = sched_dlq s"
  "sched_random (without_renderer s) = sched_random s"
  "renderer (without_renderer s) = None"
  by (simp_all add: without_renderer_def)

lemma without_renderer_updates:
  "without_renderer (s\<lparr>executable_tasks := ex\<rparr>) = (without_renderer s)\<lparr>executable_tasks := ex\<rparr>"
  "without_renderer (s\<lparr>sched_dlq := d, processed_tasks := p\<rparr>)
     = (without_renderer s)\<lparr>sched_dlq := d, processed_tasks := p\<rparr>"
  "without_renderer (s\<lparr>sched_dlq := d, processed_tasks := p, remaining_tasks := r\<rparr>)
     = (without_renderer s)\<lparr>sched_dlq := d, processed_tasks := p, remaining_tasks := r\<rparr>"
  by (simp_all add: without_renderer_def)

lemma without_renderer_classify_task:
  "without_renderer (classify_task ts n s) = classify_task ts n (without_renderer s)"
  by (simp add: classify_task_eq without_renderer_updates)

lemma without_renderer_classify_tasks:
  "without_renderer (classify_tasks ts ns s) = classify_tasks ts ns (without_renderer s)"
  by (induction ns arbitrary: s) (simp_all add: without_renderer_classify_task)

lemma without_renderer_classify_round:
  "without_renderer (classify_round ts s) = classify_round ts (without_renderer s)"
  by (simp add: classify_round_def without_renderer_classify_tasks without_renderer_updates)

lemma without_renderer_deadlock_tasks:
  "without_renderer (deadlock_tasks ns s) = deadlock_tasks ns (without_renderer s)"
  by (induction ns arbitrary: s) (simp_all add: without_renderer_updates)

lemma notify_None [simp]: "notify hook None n = None"
  by (simp add: notify_def)

lemma without_renderer_run_task:
  "without_renderer (run_task py ts n s) = run_task py ts n (without_renderer s)"
proof (cases "map_of ts n")
  case None
  then show ?thesis by (simp add: run_task_unknown)
next
  case (Some t)
  then show ?thesis
    by (simp add: run_task_def Let_def without_renderer_def split: prod.splits)
qed

lemma without_renderer_run_tasks:
  "without_renderer (run_tasks py ts ns s) = run_tasks py ts ns (without_renderer s)"
  by (induction ns arbitrary: s) (simp_all add: without_renderer_run_task)

lemma without_renderer_scheduler_loop:
  "without_renderer (scheduler_loop py ts s) = scheduler_loop py ts (without_renderer s)"
proof (induction py ts s rule: scheduler_loop.induct)
  case (1 py ts s)
  show ?case
  proof (cases "remaining_tasks s = {}")
    case True
    then show ?thesis
      by (simp add: scheduler_loop.simps)
  next
    case False
    show ?thesis
    proof (cases "executable_tasks (classify_round ts s) = []")
      case True
      then have "executable_tasks (classify_round ts (without_renderer s)) = []"
        by (simp add: without_renderer_classify_round[symmetric])
      then show ?thesis
        using False True
        by (simp add: scheduler_loop.simps[of py ts s] scheduler_loop.simps[of py ts "without_renderer s"]
              Let_def without_renderer_deadlock_tasks)
           (simp add: without_renderer_classify_round[symmetric])
    next
      case nonempty: False
      then have ne: "executable_tasks (classify_round ts (without_renderer s)) \<noteq> []"
        by (simp add: without_renderer_classify_round[symmetric])
      have "without_renderer (scheduler_loop py ts
               (run_tasks py ts (sort (executable_tasks (classify_round ts s))) (classify_round ts s)))
            = scheduler_loop py ts (without_renderer
               (run_tasks py ts (sort (executable_tasks (classify_round ts s))) (classify_round ts s)))"
        by (rule "1.IH"[OF False refl nonempty])
      also have "without_renderer
               (run_tasks py ts (sort (executable_tasks (classify_round ts s))) (classify_round ts s))
             = run_tasks py ts (sort (executable_tasks (classify_round ts (without_renderer s))))
                  (classify_round ts (without_renderer s))"
        by (simp add: without_renderer_run_tasks without_renderer_classify_round
              del: sort_executable_round)
           (simp add: without_renderer_classify_round[symmetric])
      finally show ?thesis
        using False nonempty ne
        by (simp add: scheduler_loop.simps[of py ts s] scheduler_loop.simps[of py ts "without_renderer s"]
              Let_def del: sort_executable_round)
    qed
  qed
qed

lemma without_renderer_run_scheduler:
  "without_renderer (run_scheduler e cfg rend) = run_scheduler e cfg no_renderer"
  by (simp add: run_scheduler_def initial_scheduler_def without_renderer_def Let_def no_renderer_def)

lemma without_renderer_final:
  "without_renderer (final_scheduler py e cfg rend) = final_scheduler py e cfg no_renderer"
  by (simp add: final_scheduler_def without_renderer_scheduler_loop without_renderer_run_scheduler)

lemma run_report_eq:
  "fst (run py e cfg rend) =
     (let f = without_renderer (final_scheduler py e cfg rend)
      in generate_result (tasks (parse_config e cfg))
           ((current_context f)\<lparr>dlq := failures (sched_dlq f)\<rparr>)
           (float_sub (float_mul (py_float (int (length (execution_order (current_context f))))) (fl (1 / 10))) 0))"
  by (simp add: run_def run_context_eq Let_def)

lemma run_engine_eq:
  "fst (snd (run py e cfg rend)) =
     (let f = without_renderer (final_scheduler py e cfg rend)
      in (parse_config e cfg)\<lparr>dlq_system := Some (sched_dlq f), random_generator := Some (sched_random f)\<rparr>)"
  by (simp add: run_def run_context_eq Let_def)

lemma run_ignores_renderer:
  "fst (run py e cfg rend) = fst (run py e cfg no_renderer)"
  "fst (snd (run py e cfg rend)) = fst (snd (run py e cfg no_renderer))"
  by (simp_all only: run_report_eq run_engine_eq without_renderer_final)

section \<open>Results stored by the execution loop\<close>

lemma run_task_results_other:
  "n \<noteq> m \<Longrightarrow>
   map_of (task_results (current_context (run_task py ts m s))) n
     = map_of (task_results (current_context s)) n"
  by (cases "map_of ts m") (simp_all add: run_task_unknown run_task_eq update_conv')

lemma run_tasks_results_other:
  "n \<notin> set ns \<Longrightarrow>
   map_of (task_results (current_context (run_tasks py ts ns s))) n
     = map_of (task_results (current_context s)) n"
  by (induction ns arbitrary: s) (simp_all add: run_task_results_other)









lemma sched_inv_result_keys:
  "sched_inv ts s \<Longrightarrow> fst ` set (task_results (current_context s)) = set (executed s)"
  by (metis sched_inv_def set_map)

lemma partitioned_result_keys:
  "partitioned ts s \<Longrightarrow> fst ` set (task_results (current_context s)) = set (executed s)"
  by (metis partitioned_def set_map)



section \<open>States in which a task begins\<close>

lemma run_tasks_append:
  "run_tasks py ts (xs @ ys) s = run_tasks py ts ys (run_tasks py ts xs s)"
  by (induction xs arbitrary: s) simp_all

lemma run_tasks_begin:
  "run_tasks py ts (pre @ n # post) s
     = run_tasks py ts post (run_task py ts n (run_tasks py ts pre s))"
  by (simp add: run_tasks_append)

lemma loop_reaches_inv:
  assumes "loop_reaches py ts s s'" "sched_inv ts s"
  shows "sched_inv ts s'"
  using assms
proof (rule loop_reaches_rule[where I = "sched_inv ts"])
  fix s :: "'a scheduler"
  assume "sched_inv ts s"
  then show "sched_inv ts (run_tasks py ts (sort (executable_tasks (classify_round ts s)))
                              (classify_round ts s))"
    by (simp add: run_round_inv)
qed

lemma loop_reaches_round:
  assumes "loop_reaches py ts s s'"
    and "remaining_tasks s' \<noteq> {}" "executable_tasks (classify_round ts s') \<noteq> []"
  shows "loop_reaches py ts s
           (run_tasks py ts (sort (executable_tasks (classify_round ts s'))) (classify_round ts s'))"
  using assms
proof (induction rule: loop_reaches.induct)
  case (at_start s)
  show ?case
    by (rule loop_reaches.next_round[OF at_start loop_reaches.at_start])
next
  case (next_round s s')
  show ?case
    by (rule loop_reaches.next_round[OF next_round.hyps(1,2) next_round.IH[OF next_round.prems]])
qed

lemma completed_in_results:
  "is_task_completed c n \<Longrightarrow> n \<in> fst ` set (task_results c)"
  by (auto simp: is_task_completed_def rev_image_eqI split: option.splits dest!: map_of_SomeD)

lemma ready_dependency:
  "ready ts c n \<Longrightarrow> map_of ts n = Some t \<Longrightarrow> dep \<in> set (dependencies t) \<Longrightarrow>
   dep \<in> fst ` set ts \<and> is_task_completed c dep"
  by (simp add: ready_def dependencies_completed_def list_all_iff)

lemma gate_in_round:
  assumes inv: "sched_inv ts s"
    and split: "sort (executable_tasks (classify_round ts s)) = pre @ n # post"
    and t: "map_of ts n = Some t" and dep: "dep \<in> set (dependencies t)"
  shows "dep \<in> fst ` set ts"
    and "is_task_completed (current_context (run_tasks py ts pre (classify_round ts s))) dep"
proof -
  have fin: "finite (remaining_tasks s)" using inv by (simp add: sched_inv_def)
  have E: "executable_tasks (classify_round ts s) = pre @ n # post"
    using split by simp
  have sub: "set (pre @ n # post) \<subseteq> remaining_tasks s"
    using executable_round_set[OF fin, of ts] unfolding E by auto
  have "n \<in> set (executable_tasks (classify_round ts s))"
    unfolding E by simp
  then have "ready ts (current_context s) n"
    by (simp add: executable_round_set[OF fin])
  from ready_dependency[OF this t dep]
  have known: "dep \<in> fst ` set ts" and compl: "is_task_completed (current_context s) dep"
    by simp_all
  show "dep \<in> fst ` set ts" by (rule known)
  have "dep \<in> set (executed s)"
    using completed_in_results[OF compl] sched_inv_result_keys[OF inv] by simp
  then have "dep \<notin> remaining_tasks s"
    using inv by (auto simp: sched_inv_def)
  then have "dep \<notin> set pre" using sub by auto
  then show "is_task_completed (current_context (run_tasks py ts pre (classify_round ts s))) dep"
    using compl by (simp add: is_task_completed_def run_tasks_results_other)
qed

text \<open>Every task of the final execution order began in some round of the run.\<close>

lemma executed_task_begins:
  assumes "n \<in> set (executed (scheduler_loop py ts s0))" "n \<notin> set (executed s0)"
  shows "\<exists>s pre post. loop_reaches py ts s0 s
           \<and> sort (executable_tasks (classify_round ts s)) = pre @ n # post"
proof -
  let ?B = "\<lambda>n. \<exists>s pre post. loop_reaches py ts s0 s
                 \<and> sort (executable_tasks (classify_round ts s)) = pre @ n # post"
  let ?Q = "\<lambda>s::'a scheduler. \<forall>n \<in> set (executed s). n \<in> set (executed s0) \<or> ?B n"
  let ?I = "\<lambda>s::'a scheduler. loop_reaches py ts s0 s \<and> ?Q s"
  have "?I s0" by (simp add: loop_reaches.at_start)
  then have "?Q (scheduler_loop py ts s0)"
  proof (rule scheduler_loop_rule[where I = ?I])
    fix s :: "'a scheduler"
    assume I: "?I s" and ne: "remaining_tasks s \<noteq> {}" "executable_tasks (classify_round ts s) \<noteq> []"
    let ?E = "executable_tasks (classify_round ts s)"
    let ?s2 = "run_tasks py ts (sort ?E) (classify_round ts s)"
    have r: "loop_reaches py ts s0 ?s2"
      using I ne by (intro loop_reaches_round) simp_all
    have e: "executed ?s2 = executed s @ ?E"
      by (simp add: run_tasks_executed[OF executable_round_known])
    have "?B m" if m: "m \<in> set ?E" for m
    proof -
      obtain pre post where "?E = pre @ m # post"
        using m by (meson split_list)
      with sort_executable_round[of ts s] have "sort ?E = pre @ m # post"
        by (simp only:)
      then show ?thesis using I by blast
    qed
    then have "?Q ?s2" using I unfolding e by auto
    then show "?I ?s2" using r by simp
  next
    fix s :: "'a scheduler"
    assume "?I s"
    then show "?Q s" by simp
  next
    fix s :: "'a scheduler"
    assume "?I s"
    then show "?Q (deadlock_tasks (sorted_list_of_set (remaining_tasks (classify_round ts s)))
                     (classify_round ts s))"
      by simp
  qed
  then show ?thesis using assms by blast
qed

section \<open>The deadlock branch\<close>






section \<open>The draw of each executed task\<close>

lemma task_key_inj: "task_key sd n = task_key sd m \<longleftrightarrow> n = m"
  by (simp add: task_key_def)

lemma store_ok_name: "store_ok ts \<Longrightarrow> map_of ts n = Some t \<Longrightarrow> name t = n"
  by (auto simp: store_ok_def list_all_iff dest!: map_of_SomeD)

lemma store_ok_update: "store_ok ts \<Longrightarrow> store_ok (AList.update (name t) t ts)"
  by (induction ts) (auto simp: store_ok_def)

lemma store_ok_parse_tasks: "store_ok (tasks e) \<Longrightarrow> store_ok (tasks (parse_tasks e tcs))"
  by (induction tcs arbitrary: e) (simp_all add: add_task_def store_ok_update)

lemma store_ok_parse_config: "store_ok (tasks e) \<Longrightarrow> store_ok (tasks (parse_config e cfg))"
  by (simp add: parse_config_def store_ok_parse_tasks)

lemma store_ok_init: "store_ok (tasks PipelineEngine_init)"
  by (simp add: PipelineEngine_init_def store_ok_def)

lemma execute_task_fresh:
  assumes "map_of (states g) (rng_key c t) = None"
  shows "status (fst (execute_task py g t c))
           = (if failure_rate t < mt_random py (context_seed py (rng_seed g) (rng_key c t)) 0
              then COMPLETED else FAILED)"
    and "rng_seed (snd (execute_task py g t c)) = rng_seed g"
    and "fst ` set (states (snd (execute_task py g t c))) = insert (rng_key c t) (fst ` set (states g))"
  using assms
  by (simp_all add: execute_task_def get_rng_def random_draw_def Let_def dom_update)

lemma run_task_draws_fresh:
  assumes ok: "store_ok ts" and t: "map_of ts n = Some t"
    and new: "n \<notin> set (executed s)" and K: "draws_fresh py ts sd s"
  shows "draws_fresh py ts sd (run_task py ts n s)"
proof -
  let ?g = "sched_random s" and ?c = "current_context s"
  have nm: "name t = n" using ok t by (rule store_ok_name)
  have key: "rng_key ?c t = task_key sd n"
    using K nm by (simp add: rng_key_def task_key_def draws_fresh_def)
  have "task_key sd n \<notin> fst ` set (states ?g)"
    using K new by (auto simp: draws_fresh_def task_key_inj)
  then have fresh: "map_of (states ?g) (rng_key ?c t) = None"
    by (simp add: key map_of_eq_None_iff)
  have st: "status (fst (execute_task py ?g t ?c)) = task_outcome py sd t"
    using execute_task_fresh(1)[OF fresh, of py] K
    by (simp add: key task_outcome_def task_draw_def nm draws_fresh_def)
  have e: "executed (run_task py ts n s) = executed s @ [n]"
    by (simp add: executed_def run_task_eq(1)[OF t])
  show ?thesis
    unfolding draws_fresh_def e
  proof (intro conjI allI impI)
    show "rng_seed (sched_random (run_task py ts n s)) = sd"
      using K execute_task_fresh(2)[OF fresh, of py]
      by (simp add: run_task_eq(4)[OF t] draws_fresh_def)
    show "seed (current_context (run_task py ts n s)) = sd"
      using K by (simp add: draws_fresh_def)
    show "fst ` set (states (sched_random (run_task py ts n s))) \<subseteq> task_key sd ` set (executed s @ [n])"
      using K execute_task_fresh(3)[OF fresh, of py]
      by (auto simp: run_task_eq(4)[OF t] draws_fresh_def key)
  next
    fix m r
    assume m: "map_of (task_results (current_context (run_task py ts n s))) m = Some r"
    show "\<exists>t. map_of ts m = Some t \<and> status r = task_outcome py sd t"
    proof (cases "m = n")
      case True
      then have "r = fst (execute_task py ?g t ?c)"
        using m by (simp add: run_task_eq(1)[OF t] update_conv')
      then show ?thesis using True t st by simp
    next
      case False
      then have "map_of (task_results ?c) m = Some r"
        using m by (simp add: run_task_results_other)
      then show ?thesis using K by (simp add: draws_fresh_def)
    qed
  qed
qed

lemma run_tasks_draws_fresh:
  assumes ok: "store_ok ts"
  shows "set ns \<subseteq> fst ` set ts \<Longrightarrow> distinct ns \<Longrightarrow> set ns \<inter> set (executed s) = {} \<Longrightarrow>
         draws_fresh py ts sd s \<Longrightarrow> draws_fresh py ts sd (run_tasks py ts ns s)"
proof (induction ns arbitrary: s)
  case Nil
  then show ?case by simp
next
  case (Cons n ns)
  obtain t where t: "map_of ts n = Some t"
    using Cons.prems(1) known_lookup[of n ts] by auto
  have 1: "draws_fresh py ts sd (run_task py ts n s)"
    using Cons.prems by (intro run_task_draws_fresh[OF ok t]) auto
  have 2: "set ns \<inter> set (executed (run_task py ts n s)) = {}"
    using Cons.prems by (auto simp: executed_def run_task_eq(1)[OF t])
  show ?case
    using Cons.IH[OF _ _ 2 1] Cons.prems by simp
qed

lemma classify_round_draws_fresh:
  "draws_fresh py ts sd s \<Longrightarrow> draws_fresh py ts sd (classify_round ts s)"
  by (simp add: draws_fresh_def)

lemma deadlock_tasks_random [simp]: "sched_random (deadlock_tasks ns s) = sched_random s"
  by (induction ns arbitrary: s) simp_all

lemma scheduler_loop_draws_fresh:
  assumes ok: "store_ok ts" and inv: "sched_inv ts s" and K: "draws_fresh py ts sd s"
  shows "draws_fresh py ts sd (scheduler_loop py ts s)"
proof -
  let ?I = "\<lambda>s::'a scheduler. sched_inv ts s \<and> draws_fresh py ts sd s"
  have "?I s" using inv K by simp
  then show ?thesis
  proof (rule scheduler_loop_rule[where I = ?I])
    fix s :: "'a scheduler"
    assume I: "?I s"
    let ?E = "executable_tasks (classify_round ts s)"
    have fin: "finite (remaining_tasks s)" using I by (simp add: sched_inv_def)
    have "set ?E \<inter> set (executed s) = {}"
      using I by (auto simp: executable_round_set[OF fin] sched_inv_def)
    then have "draws_fresh py ts sd (run_tasks py ts ?E (classify_round ts s))"
      using I
      by (intro run_tasks_draws_fresh[OF ok] executable_round_known executable_round_distinct
            classify_round_draws_fresh) simp_all
    then show "?I (run_tasks py ts (sort ?E) (classify_round ts s))"
      using I by (simp add: run_round_inv)
  next
    fix s :: "'a scheduler"
    assume "?I s"
    then show "draws_fresh py ts sd s" by simp
  next
    fix s :: "'a scheduler"
    assume "?I s"
    then show "draws_fresh py ts sd (deadlock_tasks (sorted_list_of_set (remaining_tasks (classify_round ts s)))
                     (classify_round ts s))"
      by (simp add: draws_fresh_def)
  qed
qed

lemma final_draws_fresh:
  assumes "store_ok (tasks e)"
  shows "draws_fresh py (tasks (parse_config e cfg)) (get_default (cfg_seed cfg) 42)
           (final_scheduler py e cfg rend)"
  unfolding final_scheduler_def
proof (rule scheduler_loop_draws_fresh)
  show "store_ok (tasks (parse_config e cfg))"
    using assms by (rule store_ok_parse_config)
  show "sched_inv (tasks (parse_config e cfg)) (run_scheduler e cfg rend)"
    by (rule run_scheduler_inv)
  show "draws_fresh py (tasks (parse_config e cfg)) (get_default (cfg_seed cfg) 42)
          (run_scheduler e cfg rend)"
    by (simp add: draws_fresh_def DeterministicRandom_init_def)
qed

text \<open>The status of every executed task in the report of a run.\<close>

lemma in_names_with_status:
  assumes "distinct (map fst rs)"
  shows "n \<in> set (names_with_status st rs) \<longleftrightarrow> (\<exists>r. map_of rs n = Some r \<and> status r = st)"
  using assms by (force simp: names_with_status_def)

lemma executed_task_outcome:
  assumes ok: "store_ok (tasks e)"
    and t: "map_of (tasks (parse_config e cfg)) n = Some t"
    and ex: "n \<in> set (report_execution_order (fst (run py e cfg rend)))"
  shows "n \<in> set (completed_tasks (fst (run py e cfg rend)))
           \<longleftrightarrow> task_outcome py (get_default (cfg_seed cfg) 42) t = COMPLETED"
    and "n \<in> set (failed_tasks (fst (run py e cfg rend)))
           \<longleftrightarrow> task_outcome py (get_default (cfg_seed cfg) 42) t = FAILED"
proof -
  let ?f = "final_scheduler py e cfg rend"
  let ?rs = "task_results (current_context ?f)"
  have part: "partitioned (tasks (parse_config e cfg)) ?f" by (rule final_partitioned)
  have d: "distinct (map fst ?rs)" using part by (simp add: partitioned_def)
  have "n \<in> fst ` set ?rs"
    using ex partitioned_result_keys[OF part] by (simp add: report_execution_order_run)
  then obtain r where r: "map_of ?rs n = Some r"
    by (metis map_of_eq_None_iff not_Some_eq)
  have "status r = task_outcome py (get_default (cfg_seed cfg) 42) t"
    using final_draws_fresh[OF ok, of py cfg rend] r t unfolding draws_fresh_def by fastforce
  then show "n \<in> set (completed_tasks (fst (run py e cfg rend)))
           \<longleftrightarrow> task_outcome py (get_default (cfg_seed cfg) 42) t = COMPLETED"
    and "n \<in> set (failed_tasks (fst (run py e cfg rend)))
           \<longleftrightarrow> task_outcome py (get_default (cfg_seed cfg) 42) t = FAILED"
    using r by (simp_all add: completed_tasks_run failed_tasks_run in_names_with_status[OF d])
qed

section \<open>What a run reads of the engine and what it leaves\<close>

lemma parse_tasks_store_only:
  "tasks e = tasks e' \<Longrightarrow> tasks (parse_tasks e tcs) = tasks (parse_tasks e' tcs)"
proof (induction tcs arbitrary: e e')
  case Nil
  then show ?case by simp
next
  case (Cons tc tcs)
  have "tasks (add_task e (make_task tc)) = tasks (add_task e' (make_task tc))"
    using Cons.prems by (simp add: add_task_def)
  then have "tasks (parse_tasks (add_task e (make_task tc)) tcs)
               = tasks (parse_tasks (add_task e' (make_task tc)) tcs)"
    by (rule Cons.IH)
  then show ?case by simp
qed

lemma run_scheduler_store_only:
  "tasks (parse_config e cfg) = tasks (parse_config e' cfg) \<Longrightarrow>
   run_scheduler e cfg rend = run_scheduler e' cfg rend"
  by (simp add: run_scheduler_def)

lemma run_parsed_store_only:
  assumes "tasks (parse_config e cfg) = tasks (parse_config e' cfg)"
  shows "fst (run py e cfg rend) = fst (run py e' cfg rend)"
  by (simp add: run_def run_context_eq final_scheduler_def run_scheduler_store_only[OF assms]
        assms Let_def)

lemma run_store_only:
  assumes "tasks e = tasks e'"
  shows "fst (run py e cfg rend) = fst (run py e' cfg rend)"
proof (rule run_parsed_store_only)
  show "tasks (parse_config e cfg) = tasks (parse_config e' cfg)"
    unfolding parse_config_def using assms by (rule parse_tasks_store_only)
qed

lemma run_leaves_store:
  "tasks (fst (snd (run py e cfg rend))) = tasks (parse_config e cfg)"
  by (simp add: run_def run_context_eq Let_def)

text \<open>
  A second run on the same engine sees the store of the first run and nothing else of it:
  the DLQ recorder and the random source are replaced, the task store is kept.
\<close>

lemma second_run_report:
  "fst (run py (fst (snd (run py e c1 rend))) c2 rend') = fst (run py (parse_config e c1) c2 rend')"
  by (rule run_store_only) (rule run_leaves_store)

subsection \<open>Running the same configuration again\<close>

lemma update_commute:
  "k \<noteq> k' \<Longrightarrow> k \<in> fst ` set al \<Longrightarrow>
   AList.update k v (AList.update k' v' al) = AList.update k' v' (AList.update k v al)"
  by (induction al) auto

lemma parse_tasks_keys:
  "fst ` set (tasks (parse_tasks e tcs)) = fst ` set (tasks e) \<union> cfg_name ` set tcs"
proof (induction tcs arbitrary: e)
  case Nil
  show ?case by simp
next
  case (Cons tc tcs)
  show ?case
    by (simp add: Cons.IH add_task_def dom_update make_task_def)
qed

lemma parse_tasks_lookup_other:
  "k \<notin> cfg_name ` set tcs \<Longrightarrow> map_of (tasks (parse_tasks e tcs)) k = map_of (tasks e) k"
proof (induction tcs arbitrary: e)
  case Nil
  show ?case by simp
next
  case (Cons tc tcs)
  then show ?case
    by (simp add: add_task_def update_conv' make_task_def)
qed

lemma parse_tasks_overwrites:
  assumes "k \<in> cfg_name ` set tcs" "k \<in> fst ` set (tasks e)"
  shows "tasks (parse_tasks (e\<lparr>tasks := AList.update k v (tasks e)\<rparr>) tcs) = tasks (parse_tasks e tcs)"
  using assms
proof (induction tcs arbitrary: e)
  case Nil
  then show ?case by simp
next
  case (Cons tc tcs)
  show ?case
  proof (cases "cfg_name tc = k")
    case True
    have "tasks (add_task (e\<lparr>tasks := AList.update k v (tasks e)\<rparr>) (make_task tc))
            = tasks (add_task e (make_task tc))"
      using True by (simp add: add_task_def make_task_def)
    then have "tasks (parse_tasks (add_task (e\<lparr>tasks := AList.update k v (tasks e)\<rparr>) (make_task tc)) tcs)
            = tasks (parse_tasks (add_task e (make_task tc)) tcs)"
      by (rule parse_tasks_store_only)
    then show ?thesis by simp
  next
    case False
    then have k: "k \<in> cfg_name ` set tcs" using Cons.prems by auto
    let ?e = "add_task e (make_task tc)"
    have "AList.update (cfg_name tc) (make_task tc) (AList.update k v (tasks e))
            = AList.update k v (AList.update (cfg_name tc) (make_task tc) (tasks e))"
      using False Cons.prems(2) by (intro update_commute[symmetric]) simp_all
    then have "tasks (add_task (e\<lparr>tasks := AList.update k v (tasks e)\<rparr>) (make_task tc))
            = tasks (?e\<lparr>tasks := AList.update k v (tasks ?e)\<rparr>)"
      by (simp add: add_task_def make_task_def)
    then have "tasks (parse_tasks (add_task (e\<lparr>tasks := AList.update k v (tasks e)\<rparr>) (make_task tc)) tcs)
                 = tasks (parse_tasks (?e\<lparr>tasks := AList.update k v (tasks ?e)\<rparr>) tcs)"
      by (rule parse_tasks_store_only)
    then have "tasks (parse_tasks (e\<lparr>tasks := AList.update k v (tasks e)\<rparr>) (tc # tcs))
                 = tasks (parse_tasks (?e\<lparr>tasks := AList.update k v (tasks ?e)\<rparr>) tcs)"
      by simp
    also have "\<dots> = tasks (parse_tasks ?e tcs)"
      using k Cons.prems(2) by (intro Cons.IH) (simp_all add: add_task_def dom_update)
    finally show ?thesis by simp
  qed
qed

lemma parse_tasks_again:
  "tasks (parse_tasks (parse_tasks e tcs) tcs) = tasks (parse_tasks e tcs)"
proof (induction tcs arbitrary: e)
  case Nil
  show ?case by simp
next
  case (Cons tc tcs)
  let ?k = "cfg_name tc" and ?v = "make_task tc"
  let ?e1 = "add_task e ?v"
  let ?m = "parse_tasks ?e1 tcs"
  have nm: "name ?v = ?k" by (simp add: make_task_def)
  have key: "?k \<in> fst ` set (tasks ?m)"
    by (simp add: parse_tasks_keys add_task_def dom_update nm)
  have "tasks (parse_tasks (parse_tasks e (tc # tcs)) (tc # tcs))
          = tasks (parse_tasks (add_task ?m ?v) tcs)"
    by simp
  also have "\<dots> = tasks (parse_tasks ?m tcs)"
  proof (cases "?k \<in> cfg_name ` set tcs")
    case True
    have "tasks (parse_tasks (?m\<lparr>tasks := AList.update ?k ?v (tasks ?m)\<rparr>) tcs) = tasks (parse_tasks ?m tcs)"
      using True key by (rule parse_tasks_overwrites)
    moreover have "tasks (add_task ?m ?v) = tasks (?m\<lparr>tasks := AList.update ?k ?v (tasks ?m)\<rparr>)"
      by (simp add: add_task_def nm)
    ultimately show ?thesis
      using parse_tasks_store_only[of "add_task ?m ?v" "?m\<lparr>tasks := AList.update ?k ?v (tasks ?m)\<rparr>" tcs]
      by simp
  next
    case False
    have "map_of (tasks ?m) ?k = map_of (tasks ?e1) ?k"
      using False by (rule parse_tasks_lookup_other)
    also have "\<dots> = Some ?v"
      by (simp add: add_task_def update_conv' nm)
    finally have "AList.update ?k ?v (tasks ?m) = tasks ?m"
      by (rule update_triv)
    then have "tasks (add_task ?m ?v) = tasks ?m"
      by (simp add: add_task_def nm)
    then show ?thesis
      by (rule parse_tasks_store_only)
  qed
  also have "\<dots> = tasks ?m" by (rule Cons.IH)
  finally show ?case by simp
qed

text \<open>
  With the string hash and the generator of one interpreter process, a run of the same
  configuration on the engine that an earlier run of it left gives the same report.
\<close>

lemma rerun_same_report:
  "fst (run py (fst (snd (run py e cfg rend))) cfg rend') = fst (run py e cfg rend)"
proof -
  have "tasks (parse_config (parse_config e cfg) cfg) = tasks (parse_config e cfg)"
    by (simp add: parse_config_def parse_tasks_again)
  then have "fst (run py (parse_config e cfg) cfg rend') = fst (run py e cfg rend')"
    by (rule run_parsed_store_only)
  then show ?thesis
    using second_run_report[of py e cfg rend cfg rend'] run_ignores_renderer(1)[of py e cfg rend']
      run_ignores_renderer(1)[of py e cfg rend]
    by simp
qed

section \<open>Timestamps of the DLQ\<close>

lemma dlq_stamped_init: "dlq_stamped sd (DLQSystem_init sd)"
  by (simp add: dlq_stamped_def DLQSystem_init_def)

lemma dlq_stamped_add_failure:
  "dlq_stamped sd d \<Longrightarrow> dlq_stamped sd (add_failure d n r c)"
  by (simp add: dlq_stamped_def add_failure_def Let_def)

lemma classify_task_stamped:
  "dlq_stamped sd (sched_dlq s) \<Longrightarrow> dlq_stamped sd (sched_dlq (classify_task ts n s))"
  by (simp add: classify_task_eq dlq_stamped_add_failure)

lemma classify_tasks_stamped:
  "dlq_stamped sd (sched_dlq s) \<Longrightarrow> dlq_stamped sd (sched_dlq (classify_tasks ts ns s))"
  by (induction ns arbitrary: s) (simp_all add: classify_task_stamped)

lemma classify_round_stamped:
  "dlq_stamped sd (sched_dlq s) \<Longrightarrow> dlq_stamped sd (sched_dlq (classify_round ts s))"
  by (simp add: classify_round_def classify_tasks_stamped)

lemma deadlock_tasks_stamped:
  "dlq_stamped sd (sched_dlq s) \<Longrightarrow> dlq_stamped sd (sched_dlq (deadlock_tasks ns s))"
  by (induction ns arbitrary: s) (simp_all add: dlq_stamped_add_failure)

lemma scheduler_loop_stamped:
  assumes "dlq_stamped sd (sched_dlq s)"
  shows "dlq_stamped sd (sched_dlq (scheduler_loop py ts s))"
  using assms
proof (rule scheduler_loop_rule[where I = "\<lambda>s. dlq_stamped sd (sched_dlq s)"])
  fix s :: "'a scheduler"
  assume "dlq_stamped sd (sched_dlq s)"
  then show "dlq_stamped sd (sched_dlq (run_tasks py ts (sort (executable_tasks (classify_round ts s)))
                                          (classify_round ts s)))"
    by (simp add: classify_round_stamped)
next
  fix s :: "'a scheduler"
  assume "dlq_stamped sd (sched_dlq s)"
  then show "dlq_stamped sd (sched_dlq (deadlock_tasks (sorted_list_of_set (remaining_tasks (classify_round ts s)))
                                          (classify_round ts s)))"
    by (simp add: classify_round_stamped deadlock_tasks_stamped)
qed

text \<open>
  In the report of a run the \<open>k\<close>-th DLQ entry (counting from 0) carries the timestamp
  computed from the run's seed and the counter value \<open>k\<close>.
\<close>

lemma report_dlq_timestamps:
  "map timestamp (report_dlq (fst (run py e cfg rend)))
     = map (deterministic_timestamp (get_default (cfg_seed cfg) 42))
         [0..<length (report_dlq (fst (run py e cfg rend)))]"
proof -
  have "dlq_stamped (get_default (cfg_seed cfg) 42) (sched_dlq (run_scheduler e cfg rend))"
    by (simp add: run_scheduler_def initial_scheduler_def Let_def dlq_stamped_init)
  then have "dlq_stamped (get_default (cfg_seed cfg) 42) (sched_dlq (final_scheduler py e cfg rend))"
    unfolding final_scheduler_def by (rule scheduler_loop_stamped)
  then show ?thesis
    by (simp add: report_dlq_run dlq_stamped_def)
qed

section \<open>Determinism and the string hash\<close>

text \<open>
  Claim C1. The seed of a task's generator is \<open>(seed + hash(key)) mod 2 ^ 32\<close>, with
  Python's built-in string hash, which belongs to the interpreter process and not to the
  configuration. Take the same engine, configuration and seed in two processes \<open>py1\<close>
  and \<open>py2\<close> that have the same generator and differ in the string hash only. If the
  draw of an executed task lies above its failure rate under the hash of \<open>py1\<close> and not
  above it under the hash of \<open>py2\<close>, the task is completed in one report and failed in
  the other: the two reports of the same configuration and seed differ.
\<close>

theorem C1_report_depends_on_string_hash:
  assumes "store_ok (tasks e)"
    and "map_of (tasks (parse_config e cfg)) n = Some t"
    and "n \<in> set (report_execution_order (fst (run py1 e cfg rend)))"
    and "n \<in> set (report_execution_order (fst (run py2 e cfg rend)))"
    and "mt_random py1 = mt_random py2"
    and "failure_rate t < task_draw py1 (get_default (cfg_seed cfg) 42) (name t)"
    and "task_draw py2 (get_default (cfg_seed cfg) 42) (name t) \<le> failure_rate t"
  shows "n \<in> set (completed_tasks (fst (run py1 e cfg rend)))
         \<and> n \<notin> set (completed_tasks (fst (run py2 e cfg rend)))
         \<and> n \<in> set (failed_tasks (fst (run py2 e cfg rend)))
         \<and> fst (run py1 e cfg rend) \<noteq> fst (run py2 e cfg rend)"
proof -
  have o1: "task_outcome py1 (get_default (cfg_seed cfg) 42) t = COMPLETED"
    using assms(6) by (simp add: task_outcome_def)
  have o2: "task_outcome py2 (get_default (cfg_seed cfg) 42) t = FAILED"
    using assms(7) by (simp add: task_outcome_def)
  have 1: "n \<in> set (completed_tasks (fst (run py1 e cfg rend)))"
    using executed_task_outcome(1)[OF assms(1,2,3)] o1 by simp
  have 2: "n \<notin> set (completed_tasks (fst (run py2 e cfg rend)))"
    using executed_task_outcome(1)[OF assms(1,2,4)] o2 by simp
  have 3: "n \<in> set (failed_tasks (fst (run py2 e cfg rend)))"
    using executed_task_outcome(2)[OF assms(1,2,4)] o2 by simp
  have "fst (run py1 e cfg rend) \<noteq> fst (run py2 e cfg rend)"
    using 1 2 by auto
  then show ?thesis using 1 2 3 by simp
qed

theorem C1_report_depends_on_string_hash_witness:
  "store_ok (tasks PipelineEngine_init)
   \<and> map_of (tasks (parse_config PipelineEngine_init half_rate_config)) ''task_a''
       = Some (make_task (simple_task ''task_a'' [] (1 / 2)))
   \<and> ''task_a'' \<in> set (report_execution_order
                         (fst (run (salted_runtime 1) PipelineEngine_init half_rate_config no_renderer)))
   \<and> ''task_a'' \<in> set (report_execution_order
                         (fst (run (salted_runtime 0) PipelineEngine_init half_rate_config no_renderer)))
   \<and> mt_random (salted_runtime 1) = mt_random (salted_runtime 0)
   \<and> task_draw (salted_runtime 1) 42 ''task_a'' = 3 / 4
   \<and> task_draw (salted_runtime 0) 42 ''task_a'' = 1 / 4
   \<and> ''task_a'' \<in> set (completed_tasks
                         (fst (run (salted_runtime 1) PipelineEngine_init half_rate_config no_renderer)))
   \<and> ''task_a'' \<in> set (failed_tasks
                         (fst (run (salted_runtime 0) PipelineEngine_init half_rate_config no_renderer)))
   \<and> fst (run (salted_runtime 1) PipelineEngine_init half_rate_config no_renderer)
       \<noteq> fst (run (salted_runtime 0) PipelineEngine_init half_rate_config no_renderer)"
proof -
  let ?t = "make_task (simple_task ''task_a'' [] (1 / 2))"
  have h2: "map_of (tasks (parse_config PipelineEngine_init half_rate_config)) ''task_a'' = Some ?t"
    by code_simp
  have h3: "''task_a'' \<in> set (report_execution_order
              (fst (run (salted_runtime 1) PipelineEngine_init half_rate_config no_renderer)))"
    by code_simp
  have h4: "''task_a'' \<in> set (report_execution_order
              (fst (run (salted_runtime 0) PipelineEngine_init half_rate_config no_renderer)))"
    by code_simp
  have h5: "mt_random (salted_runtime 1) = mt_random (salted_runtime 0)"
    by (simp add: salted_runtime_def)
  have sd: "get_default (cfg_seed half_rate_config) 42 = 42" and nm: "name ?t = ''task_a''"
    and fr: "failure_rate ?t = 1 / 2"
    by code_simp+
  have d1: "task_draw (salted_runtime 1) 42 ''task_a'' = 3 / 4"
    by code_simp
  have d0: "task_draw (salted_runtime 0) 42 ''task_a'' = 1 / 4"
    by code_simp
  have h6: "failure_rate ?t < task_draw (salted_runtime 1) (get_default (cfg_seed half_rate_config) 42) (name ?t)"
    by (simp add: sd nm fr d1)
  have h7: "task_draw (salted_runtime 0) (get_default (cfg_seed half_rate_config) 42) (name ?t) \<le> failure_rate ?t"
    by (simp add: sd nm fr d0)
  show ?thesis
    using C1_report_depends_on_string_hash[OF store_ok_init h2 h3 h4 h5 h6 h7]
      store_ok_init h2 h3 h4 h5 d1 d0
    by blast
qed

section \<open>Stochastic outcome of a task\<close>




section \<open>The task store across runs\<close>

text \<open>
  Claim C3. \<^verbatim>\<open>run\<close> replaces the random source and the DLQ recorder but keeps the task
  store: the report of a second run on the same engine is the report of a run on an
  engine that already holds the tasks of the first configuration. So after a run of
  \<open>first_config\<close> (task \<open>task_a\<close>), a run of \<open>second_config\<close> (task \<open>task_b\<close>) executes
  both tasks, where a freshly constructed engine executes \<open>task_b\<close> alone.
\<close>

theorem C3_task_store_kept_between_runs:
  "fst (run py (fst (snd (run py e c1 rend))) c2 rend') = fst (run py (parse_config e c1) c2 rend')
   \<and> report_execution_order
         (fst (run py (fst (snd (run py PipelineEngine_init first_config no_renderer)))
                 second_config no_renderer))
       = [''task_a'', ''task_b'']
   \<and> report_execution_order (fst (run py PipelineEngine_init second_config no_renderer))
       = [''task_b'']"
proof (intro conjI)
  show "fst (run py (fst (snd (run py e c1 rend))) c2 rend') = fst (run py (parse_config e c1) c2 rend')"
    by (rule second_run_report)
  show "report_execution_order
         (fst (run py (fst (snd (run py PipelineEngine_init first_config no_renderer)))
                 second_config no_renderer))
       = [''task_a'', ''task_b'']"
    by code_simp
  show "report_execution_order (fst (run py PipelineEngine_init second_config no_renderer))
       = [''task_b'']"
    by code_simp
qed

section \<open>Dependency gating\<close>

text \<open>
  Claim C4. Take any round of a run: the loop stands at its head in a state \<open>s\<close>, the
  classification pass yields the executable list, and the execution loop goes through
  it in sorted order. When it comes to the task \<open>n\<close>, after the tasks \<open>pre\<close> before it,
  the state is \<open>run_tasks py ts pre (classify_round ts s)\<close>, and in the context of that
  state every declared dependency of \<open>n\<close> is a task of the store with status COMPLETED.
  So no task begins while a dependency is missing, pending or failed.
\<close>

theorem C4_dependency_gating:
  assumes "loop_reaches py (tasks (parse_config e cfg)) (run_scheduler e cfg rend) s"
    and "sort (executable_tasks (classify_round (tasks (parse_config e cfg)) s)) = pre @ n # post"
    and "map_of (tasks (parse_config e cfg)) n = Some t"
    and "dep \<in> set (dependencies t)"
  shows "run_tasks py (tasks (parse_config e cfg)) (pre @ n # post)
             (classify_round (tasks (parse_config e cfg)) s)
           = run_tasks py (tasks (parse_config e cfg)) post
               (run_task py (tasks (parse_config e cfg)) n
                  (run_tasks py (tasks (parse_config e cfg)) pre
                     (classify_round (tasks (parse_config e cfg)) s)))
         \<and> dep \<in> fst ` set (tasks (parse_config e cfg))
         \<and> is_task_completed
               (current_context (run_tasks py (tasks (parse_config e cfg)) pre
                                    (classify_round (tasks (parse_config e cfg)) s))) dep"
proof -
  have "sched_inv (tasks (parse_config e cfg)) s"
    using assms(1) run_scheduler_inv by (rule loop_reaches_inv)
  from gate_in_round[OF this assms(2,3,4)] show ?thesis
    by (simp add: run_tasks_begin)
qed

theorem C4_dependency_gating_witness:
  "loop_reaches half_runtime (tasks (parse_config PipelineEngine_init chain_config))
     (run_scheduler PipelineEngine_init chain_config no_renderer) chain_second_round
   \<and> sort (executable_tasks (classify_round (tasks (parse_config PipelineEngine_init chain_config))
                                 chain_second_round)) = [] @ ''task_b'' # []
   \<and> map_of (tasks (parse_config PipelineEngine_init chain_config)) ''task_b''
       = Some (make_task (simple_task ''task_b'' [''task_a''] 0))
   \<and> ''task_a'' \<in> set (dependencies (make_task (simple_task ''task_b'' [''task_a''] 0)))
   \<and> is_task_completed
         (current_context (run_tasks half_runtime (tasks (parse_config PipelineEngine_init chain_config)) []
                              (classify_round (tasks (parse_config PipelineEngine_init chain_config))
                                 chain_second_round))) ''task_a''"
proof -
  let ?ts = "tasks (parse_config PipelineEngine_init chain_config)"
  let ?s0 = "run_scheduler PipelineEngine_init chain_config no_renderer"
  have a: "remaining_tasks ?s0 \<noteq> {}"
    by code_simp
  have b: "executable_tasks (classify_round ?ts ?s0) \<noteq> []"
    by code_simp
  have h1: "loop_reaches half_runtime ?ts ?s0 chain_second_round"
    unfolding chain_second_round_def
    by (rule loop_reaches.next_round[OF a b loop_reaches.at_start])
  have h2: "sort (executable_tasks (classify_round ?ts chain_second_round)) = [] @ ''task_b'' # []"
    by code_simp
  have h3: "map_of ?ts ''task_b'' = Some (make_task (simple_task ''task_b'' [''task_a''] 0))"
    by code_simp
  have h4: "''task_a'' \<in> set (dependencies (make_task (simple_task ''task_b'' [''task_a''] 0)))"
    by code_simp
  show ?thesis
    using C4_dependency_gating[OF h1 h2 h3 h4] h1 h2 h3 h4 by simp
qed

section \<open>Renderer isolation\<close>


section \<open>Deadlock and cycles\<close>



section \<open>Missing dependencies\<close>



section \<open>Stochastic failures are not DLQ events\<close>



section \<open>DLQ timestamps\<close>

text \<open>
  Claim C9. The \<open>k\<close>-th DLQ entry of a report (counting from 0) carries the timestamp
  \<^verbatim>\<open>seed + k * 0.001\<close>, computed in binary64 arithmetic. For the seed \<open>2 ^ 53\<close> the
  addend is below half a unit in the last place of the seed and is rounded away, so
  the first two DLQ entries of a run carry the same timestamp: the timestamps are not
  strictly increasing.
\<close>

theorem C9_large_seed_timestamps_equal:
  "map timestamp (report_dlq (fst (run py e cfg rend)))
     = map (deterministic_timestamp (get_default (cfg_seed cfg) 42))
         [0..<length (report_dlq (fst (run py e cfg rend)))]
   \<and> deterministic_timestamp 9007199254740992 0 = 9007199254740992
   \<and> deterministic_timestamp 9007199254740992 1 = 9007199254740992
   \<and> map task (report_dlq (fst (run py PipelineEngine_init two_ghosts_config no_renderer)))
       = [''task_a'', ''task_b'']
   \<and> map timestamp (report_dlq (fst (run py PipelineEngine_init two_ghosts_config no_renderer)))
       = [9007199254740992, 9007199254740992]"
proof (intro conjI)
  show "map timestamp (report_dlq (fst (run py e cfg rend)))
     = map (deterministic_timestamp (get_default (cfg_seed cfg) 42))
         [0..<length (report_dlq (fst (run py e cfg rend)))]"
    by (rule report_dlq_timestamps)
  show "deterministic_timestamp 9007199254740992 0 = 9007199254740992"
    by code_simp
  show "deterministic_timestamp 9007199254740992 1 = 9007199254740992"
    by code_simp
  show "map task (report_dlq (fst (run py PipelineEngine_init two_ghosts_config no_renderer)))
       = [''task_a'', ''task_b'']"
    by code_simp
  show "map timestamp (report_dlq (fst (run py PipelineEngine_init two_ghosts_config no_renderer)))
       = [9007199254740992, 9007199254740992]"
    by code_simp
qed

section \<open>A task with a missing and a failed dependency\<close>




end
